theory Spec2Isabelle
  imports Main "HOL-Library.Sublist" "HOL-Library.Word"
begin

section \<open>The provider package of gta: temporary IAM role bindings\<close>

text \<open>
  A shallow embedding of the GCP provider (package \<open>provider\<close>): \<open>Grant\<close>,
  \<open>Revoke\<close>, \<open>ListTemporaryBindings\<close> and \<open>CleanTemporaryBindings\<close>, with
  the helpers they call. Everything the Go code reaches outside its own process is
  a field of the record \<open>world\<close>: the policies stored by the resource manager, the
  outcome of each remote call, the clock, the OAuth2 user info and the log.
\<close>

subsection \<open>Constants\<close>

definition gcpBindingTitlePrefix :: string where
  "gcpBindingTitlePrefix = ''gta_temporary_access''"

definition policyVersion :: int where
  "policyVersion = 3"

definition rolePrefix :: string where
  "rolePrefix = ''roles/''"

subsection \<open>The data of the resource manager API\<close>

text \<open>
  \<open>resourcemanager.Expr\<close>, \<open>resourcemanager.Binding\<close> and
  \<open>resourcemanager.Policy\<close>, with the fields the provider reads or writes. A
  \<open>nil\<close> condition is \<open>None\<close>. A policy decoded from a response holds a
  fresh \<open>Binding\<close> behind every pointer of its slice, so the slice of pointers
  is a list of values.
\<close>

record expr =
  Title :: string
  Description :: string
  Expression :: string

record binding =
  Role :: string
  Members :: "string list"
  Condition :: "expr option"

record policy =
  Bindings :: "binding list"
  Version :: int

subsection \<open>The provider's own types\<close>

record temporaryBinding =
  tb_Role :: string
  tb_Member :: string
  tb_BindingID :: string
  tb_Index :: nat

record GrantedRole =
  gr_Role :: string
  gr_BindingID :: string

record GCPProvider =
  dryRun :: bool
  grantedRoles :: "GrantedRole list"

text \<open>\<open>TTL\<close> is a \<open>time.Duration\<close>: a number of nanoseconds.\<close>

record GCPOptions =
  Project :: string
  Roles :: "string list"
  User :: string
  TTL :: int

text \<open>
  A value of the interface \<open>Options\<close>: a \<open>*GCPOptions\<close>, or a value of
  another type, for which the type assertion of every operation fails.
\<close>

datatype options = GCP GCPOptions | OtherOptions

subsection \<open>Errors, results and the log\<close>

text \<open>
  Each \<open>fmt.Errorf\<close> of the package is a constructor; the text of an error of
  the remote API is carried as a string. \<open>grantErrors\<close> and
  \<open>revokeErrors\<close> hold one (role, error) pair for every
  \<open>"role %s: %v"\<close>.
\<close>

datatype error =
    InvalidOptionsType
  | CreateOAuth2ServiceFailed string
  | GetUserInfoFailed string
  | NoEmailInCredentials
  | GetCurrentUserFailed error
  | GetIAMPolicyFailed string
  | SetIAMPolicyFailed string
  | GrantAnyRolesFailed "(string \<times> error) list"
  | FetchIAMPolicyFailed error
  | UpdateIAMPolicyFailed error

text \<open>
  What an operation returns: \<open>nil\<close>, an error, or nothing because the process
  panicked on an index out of range.
\<close>

datatype result = OK | Error error | Panic

datatype level = Debug | Info | Warn

text \<open>One constructor for every format string passed to the logger, with its arguments.\<close>

datatype message =
    UsingCurrentUser string
  | GrantingRole string string string int
  | DryRunWouldGrant string string string
  | FailedToGetPolicyForRole string error
  | FailedToSetPolicyForRole string error
  | FailedToGrantSomeRoles "(string \<times> error) list"
  | NoRolesToRevoke
  | RevokingRole string string string
  | DryRunWouldRevoke string string string
  | FailedToRevokeSomeRoles "(string \<times> error) list"
  | FoundTemporaryBinding string string string string
  | NoTemporaryBindingsFound
  | DryRunWouldRemoveBinding string string string
  | FoundBindingToRemove string string string
  | RemovingBinding string string
  | CleanedUp nat

subsection \<open>The world outside the process\<close>

datatype api_call = GetIamPolicyCall string | SetIamPolicyCall string policy

datatype oauth_outcome = NewServiceFails string | UserinfoFails string | Userinfo string

text \<open>
  \<^item> \<open>remote\<close>: the policy the resource manager stores for each project;
  \<^item> \<open>api_fault\<close>: whether the k-th call to the resource manager fails, and with
    which error text; \<open>api_calls\<close>: the calls made so far, oldest first;
  \<^item> \<open>clock\<close>: the instant the k-th \<open>time.Now()\<close> returns, in nanoseconds
    since the Unix epoch; \<open>clock_reads\<close>: how many were taken;
  \<^item> \<open>rfc3339\<close>: the text \<open>Format(time.RFC3339)\<close> gives an instant;
  \<^item> \<open>oauth\<close>: what the OAuth2 user info request yields;
  \<^item> \<open>logs\<close>: the calls to the logger, oldest first.
  A write that succeeds replaces the stored policy by the one sent; a failed call
  changes nothing remotely.
\<close>

record world =
  remote :: "string \<Rightarrow> policy"
  api_fault :: "nat \<Rightarrow> string option"
  api_calls :: "api_call list"
  clock :: "nat \<Rightarrow> int"
  clock_reads :: nat
  rfc3339 :: "int \<Rightarrow> string"
  oauth :: oauth_outcome
  logs :: "(level \<times> message) list"

definition logger :: "level \<Rightarrow> message \<Rightarrow> world \<Rightarrow> world" where
  "logger l m w = w\<lparr>logs := logs w @ [(l, m)]\<rparr>"

definition now :: "world \<Rightarrow> int \<times> world" where
  "now w = (clock w (clock_reads w), w\<lparr>clock_reads := Suc (clock_reads w)\<rparr>)"

text \<open>\<open>Time.UnixNano\<close>: the instant as an \<open>int64\<close>, wrapped into its range.\<close>

definition UnixNano :: "int \<Rightarrow> int" where
  "UnixNano t = sint (word_of_int t :: 64 word)"

subsection \<open>Formatting\<close>

text \<open>The verb \<open>%d\<close> of \<open>fmt.Sprintf\<close> on an integer: decimal, with a minus sign.\<close>

definition digit_char :: "nat \<Rightarrow> char" where
  "digit_char d = ''0123456789'' ! d"

fun digits :: "nat \<Rightarrow> string" where
  "digits n = (if n < 10 then [digit_char n] else digits (n div 10) @ [digit_char (n mod 10)])"

declare digits.simps [simp del]

definition sprint_d :: "int \<Rightarrow> string" where
  "sprint_d i = (if i < 0 then CHR ''-'' # digits (nat (- i)) else digits (nat i))"

definition formatRole :: "string \<Rightarrow> string" where
  "formatRole role = (if prefix rolePrefix role then role else rolePrefix @ role)"

definition formatMember :: "string \<Rightarrow> string" where
  "formatMember email = ''user:'' @ email"

text \<open>\<open>strings.TrimPrefix\<close>.\<close>

definition TrimPrefix :: "string \<Rightarrow> string \<Rightarrow> string" where
  "TrimPrefix s p = (if prefix p s then drop (length p) s else s)"

subsection \<open>Remote calls\<close>

definition NewGCPProvider :: "bool \<Rightarrow> GCPProvider" where
  "NewGCPProvider d = \<lparr>dryRun = d, grantedRoles = []\<rparr>"

definition getCurrentUser :: "world \<Rightarrow> error + string" where
  "getCurrentUser w =
     (case oauth w of
        NewServiceFails e \<Rightarrow> Inl (CreateOAuth2ServiceFailed e)
      | UserinfoFails e \<Rightarrow> Inl (GetUserInfoFailed e)
      | Userinfo email \<Rightarrow> if email = [] then Inl NoEmailInCredentials else Inr email)"

definition getIAMPolicy :: "string \<Rightarrow> world \<Rightarrow> (error + policy) \<times> world" where
  "getIAMPolicy project w =
     (let w' = w\<lparr>api_calls := api_calls w @ [GetIamPolicyCall project]\<rparr> in
      case api_fault w (length (api_calls w)) of
        Some e \<Rightarrow> (Inl (GetIAMPolicyFailed e), w')
      | None \<Rightarrow> (Inr ((remote w project)\<lparr>Version := policyVersion\<rparr>), w'))"

definition setIAMPolicy :: "string \<Rightarrow> policy \<Rightarrow> world \<Rightarrow> error option \<times> world" where
  "setIAMPolicy project pol w =
     (let w' = w\<lparr>api_calls := api_calls w @ [SetIamPolicyCall project pol]\<rparr> in
      case api_fault w (length (api_calls w)) of
        Some e \<Rightarrow> (Some (SetIAMPolicyFailed e), w')
      | None \<Rightarrow> (None, w'\<lparr>remote := (remote w)(project := pol)\<rparr>))"

subsection \<open>Grant\<close>

text \<open>
  \<open>createBinding\<close> reads the clock three times, in this order: for the expiry,
  for the binding ID, for the description.
\<close>

definition createBinding :: "string \<Rightarrow> string \<Rightarrow> int \<Rightarrow> world \<Rightarrow> binding \<times> world" where
  "createBinding role member ttl w =
     (let (t1, w1) = now w;
          expireTime = rfc3339 w (t1 + ttl);
          (t2, w2) = now w1;
          bindingID = gcpBindingTitlePrefix @ ''_'' @ sprint_d (UnixNano t2);
          (t3, w3) = now w2
      in (\<lparr>Role = role, Members = [member],
           Condition = Some \<lparr>Title = bindingID,
             Description = ''Temporary access granted by GTA tool at '' @ rfc3339 w t3,
             Expression = ''request.time < timestamp('' @ [CHR 0x27] @ expireTime @ [CHR 0x27] @ '')''\<rparr>\<rparr>,
          w3))"

text \<open>\<open>binding.Condition.Title\<close>; \<open>createBinding\<close> always sets the condition.\<close>

definition conditionTitle :: "binding \<Rightarrow> string" where
  "conditionTitle b = (case Condition b of Some c \<Rightarrow> Title c | None \<Rightarrow> [])"

text \<open>
  The loop of \<open>Grant\<close> over \<open>gcpOpts.Roles\<close>, threading the provider (its
  \<open>grantedRoles\<close>), \<open>grantErrors\<close> and the world.
\<close>

fun grant_loop :: "GCPOptions \<Rightarrow> string \<Rightarrow> string list \<Rightarrow> GCPProvider \<Rightarrow> (string \<times> error) list
    \<Rightarrow> world \<Rightarrow> GCPProvider \<times> (string \<times> error) list \<times> world" where
  "grant_loop opt member [] p errs w = (p, errs, w)"
| "grant_loop opt member (role # roles) p errs w =
     (let formattedRole = formatRole role;
          w1 = logger Info (GrantingRole formattedRole (User opt) (Project opt) (TTL opt)) w
      in if dryRun p then
           grant_loop opt member roles p errs
             (logger Info (DryRunWouldGrant formattedRole (User opt) (Project opt)) w1)
         else
           (case getIAMPolicy (Project opt) w1 of
              (Inl err, w2) \<Rightarrow>
                grant_loop opt member roles p (errs @ [(formattedRole, err)])
                  (logger Warn (FailedToGetPolicyForRole formattedRole err) w2)
            | (Inr pol, w2) \<Rightarrow>
                (let (b, w3) = createBinding formattedRole member (TTL opt) w2;
                     pol' = pol\<lparr>Bindings := Bindings pol @ [b]\<rparr>
                 in case setIAMPolicy (Project opt) pol' w3 of
                      (Some err, w4) \<Rightarrow>
                        grant_loop opt member roles p (errs @ [(formattedRole, err)])
                          (logger Warn (FailedToSetPolicyForRole formattedRole err) w4)
                    | (None, w4) \<Rightarrow>
                        grant_loop opt member roles
                          (p\<lparr>grantedRoles := grantedRoles p
                               @ [\<lparr>gr_Role = formattedRole, gr_BindingID = conditionTitle b\<rparr>]\<rparr>)
                          errs w4)))"

text \<open>
  \<open>Grant\<close> returns its result, the provider, the options (it stores the
  resolved user in \<open>gcpOpts.User\<close>, which the caller passes on to \<open>Revoke\<close>)
  and the world.
\<close>

definition grant_finish :: "GCPProvider \<times> (string \<times> error) list \<times> world \<Rightarrow> GCPOptions
    \<Rightarrow> result \<times> GCPProvider \<times> options \<times> world" where
  "grant_finish st opt =
     (case st of (p', grantErrors, w') \<Rightarrow>
        if grantErrors \<noteq> [] then
          if grantedRoles p' = [] then (Error (GrantAnyRolesFailed grantErrors), p', GCP opt, w')
          else (OK, p', GCP opt, logger Warn (FailedToGrantSomeRoles grantErrors) w')
        else (OK, p', GCP opt, w'))"

definition Grant :: "GCPProvider \<Rightarrow> options \<Rightarrow> world \<Rightarrow> result \<times> GCPProvider \<times> options \<times> world" where
  "Grant p opts w =
     (case opts of
        OtherOptions \<Rightarrow> (Error InvalidOptionsType, p, opts, w)
      | GCP gcpOpts \<Rightarrow>
          if User gcpOpts = [] then
            (case getCurrentUser w of
               Inl err \<Rightarrow> (Error (GetCurrentUserFailed err), p, opts, w)
             | Inr user \<Rightarrow>
                 (let opt = gcpOpts\<lparr>User := user\<rparr>;
                      w0 = logger Debug (UsingCurrentUser user) w
                  in grant_finish (grant_loop opt (formatMember (User opt)) (Roles opt) p [] w0) opt))
          else
            grant_finish (grant_loop gcpOpts (formatMember (User gcpOpts)) (Roles gcpOpts) p [] w)
              gcpOpts)"

subsection \<open>Revoke\<close>

text \<open>
  The test of the inner loop of \<open>Revoke\<close>: the binding has the granted role, a
  condition, and the recorded binding ID as its title.
\<close>

definition is_granted :: "GrantedRole \<Rightarrow> binding \<Rightarrow> bool" where
  "is_granted g b =
     (Role b = gr_Role g \<and> (case Condition b of None \<Rightarrow> False | Some c \<Rightarrow> Title c = gr_BindingID g))"

text \<open>
  The inner loop of \<open>Revoke\<close> over \<open>policy.Bindings\<close>: at the first binding
  that passes the test, the member is filtered out, the binding is cut out of the
  slice when no member is left, and the loop breaks.
\<close>

fun revoke_binding :: "GrantedRole \<Rightarrow> string \<Rightarrow> binding list \<Rightarrow> binding list" where
  "revoke_binding g member [] = []"
| "revoke_binding g member (b # bs) =
     (if is_granted g b then
        (let newMembers = filter (\<lambda>m. m \<noteq> member) (Members b)
         in if newMembers = [] then bs else b\<lparr>Members := newMembers\<rparr> # bs)
      else b # revoke_binding g member bs)"

fun revoke_loop :: "GCPProvider \<Rightarrow> GCPOptions \<Rightarrow> string \<Rightarrow> GrantedRole list \<Rightarrow> (string \<times> error) list
    \<Rightarrow> world \<Rightarrow> (string \<times> error) list \<times> world" where
  "revoke_loop p opt member [] errs w = (errs, w)"
| "revoke_loop p opt member (g # gs) errs w =
     (let w1 = logger Info (RevokingRole (gr_Role g) (User opt) (Project opt)) w
      in if dryRun p then
           revoke_loop p opt member gs errs
             (logger Info (DryRunWouldRevoke (gr_Role g) (User opt) (Project opt)) w1)
         else
           (case getIAMPolicy (Project opt) w1 of
              (Inl err, w2) \<Rightarrow>
                revoke_loop p opt member gs (errs @ [(gr_Role g, err)])
                  (logger Warn (FailedToGetPolicyForRole (gr_Role g) err) w2)
            | (Inr pol, w2) \<Rightarrow>
                (let pol' = pol\<lparr>Bindings := revoke_binding g member (Bindings pol)\<rparr>
                 in case setIAMPolicy (Project opt) pol' w2 of
                      (Some err, w3) \<Rightarrow>
                        revoke_loop p opt member gs (errs @ [(gr_Role g, err)])
                          (logger Warn (FailedToSetPolicyForRole (gr_Role g) err) w3)
                    | (None, w3) \<Rightarrow> revoke_loop p opt member gs errs w3)))"

definition Revoke :: "GCPProvider \<Rightarrow> options \<Rightarrow> world \<Rightarrow> result \<times> world" where
  "Revoke p opts w =
     (case opts of
        OtherOptions \<Rightarrow> (Error InvalidOptionsType, w)
      | GCP gcpOpts \<Rightarrow>
          if grantedRoles p = [] then (OK, logger Info NoRolesToRevoke w)
          else
            (case revoke_loop p gcpOpts (formatMember (User gcpOpts)) (grantedRoles p) [] w of
               (revokeErrors, w') \<Rightarrow>
                 if revokeErrors \<noteq> [] then (OK, logger Warn (FailedToRevokeSomeRoles revokeErrors) w')
                 else (OK, w')))"

subsection \<open>List and Clean\<close>

text \<open>The test both scans make on a member of a binding.\<close>

definition member_matches :: "GCPOptions \<Rightarrow> string \<Rightarrow> bool" where
  "member_matches opt member =
     (prefix ''user:'' member \<and> (User opt = [] \<or> member = formatMember (User opt)))"

text \<open>The expiry shown by \<open>ListTemporaryBindings\<close>: two \<open>TrimPrefix\<close> calls.\<close>

definition expires_of :: "expr \<Rightarrow> string" where
  "expires_of c =
     TrimPrefix (TrimPrefix (Expression c) (''request.time < timestamp('' @ [CHR 0x27]))
       ([CHR 0x27] @ '')'')"

text \<open>
  The loops of \<open>ListTemporaryBindings\<close>: the inner one over the members of a
  binding, the outer one over the bindings; \<open>found\<close> is threaded through both.
\<close>

fun list_members :: "GCPOptions \<Rightarrow> binding \<Rightarrow> expr \<Rightarrow> string list \<Rightarrow> bool \<Rightarrow> world \<Rightarrow> bool \<times> world" where
  "list_members opt b c [] found w = (found, w)"
| "list_members opt b c (member # ms) found w =
     (if member_matches opt member then
        list_members opt b c ms True
          (logger Info (FoundTemporaryBinding (Role b) member (expires_of c) (Title c)) w)
      else list_members opt b c ms found w)"

fun list_bindings :: "GCPOptions \<Rightarrow> binding list \<Rightarrow> bool \<Rightarrow> world \<Rightarrow> bool \<times> world" where
  "list_bindings opt [] found w = (found, w)"
| "list_bindings opt (b # bs) found w =
     (case Condition b of
        None \<Rightarrow> list_bindings opt bs found w
      | Some c \<Rightarrow>
          if \<not> prefix gcpBindingTitlePrefix (Title c) then list_bindings opt bs found w
          else (case list_members opt b c (Members b) found w of
                  (found', w') \<Rightarrow> list_bindings opt bs found' w'))"

definition ListTemporaryBindings :: "GCPProvider \<Rightarrow> options \<Rightarrow> world \<Rightarrow> result \<times> world" where
  "ListTemporaryBindings p opts w =
     (case opts of
        OtherOptions \<Rightarrow> (Error InvalidOptionsType, w)
      | GCP gcpOpts \<Rightarrow>
          (case getIAMPolicy (Project gcpOpts) w of
             (Inl err, w1) \<Rightarrow> (Error (FetchIAMPolicyFailed err), w1)
           | (Inr pol, w1) \<Rightarrow>
               (case list_bindings gcpOpts (Bindings pol) False w1 of
                  (found, w2) \<Rightarrow>
                    if \<not> found then (OK, logger Info NoTemporaryBindingsFound w2) else (OK, w2))))"

text \<open>
  The first pass of \<open>CleanTemporaryBindings\<close>: one \<open>temporaryBinding\<close> for
  every matching member of every marked binding, with the binding's index.
\<close>

fun collect_members :: "GCPOptions \<Rightarrow> binding \<Rightarrow> expr \<Rightarrow> nat \<Rightarrow> string list \<Rightarrow> temporaryBinding list" where
  "collect_members opt b c i [] = []"
| "collect_members opt b c i (member # ms) =
     (if member_matches opt member then
        \<lparr>tb_Role = Role b, tb_Member = member, tb_BindingID = Title c, tb_Index = i\<rparr>
          # collect_members opt b c i ms
      else collect_members opt b c i ms)"

fun collect_bindings :: "GCPOptions \<Rightarrow> nat \<Rightarrow> binding list \<Rightarrow> temporaryBinding list" where
  "collect_bindings opt i [] = []"
| "collect_bindings opt i (b # bs) =
     (case Condition b of
        None \<Rightarrow> collect_bindings opt (Suc i) bs
      | Some c \<Rightarrow>
          if \<not> prefix gcpBindingTitlePrefix (Title c) then collect_bindings opt (Suc i) bs
          else collect_members opt b c i (Members b) @ collect_bindings opt (Suc i) bs)"

text \<open>The loop that lists the bindings that will be affected.\<close>

fun report_bindings :: "GCPProvider \<Rightarrow> temporaryBinding list \<Rightarrow> world \<Rightarrow> world" where
  "report_bindings p [] w = w"
| "report_bindings p (t # ts) w =
     report_bindings p ts
       (if dryRun p then
          logger Info (DryRunWouldRemoveBinding (tb_Role t) (tb_Member t) (tb_BindingID t)) w
        else logger Info (FoundBindingToRemove (tb_Role t) (tb_Member t) (tb_BindingID t)) w)"

text \<open>
  One pass of the body of the removal loop on \<open>policy.Bindings\<close>: the binding
  at the recorded index loses the member, and is cut out of the slice when no
  member is left. Reading the slice at an index that is not below its length
  panics: \<open>None\<close>.
\<close>

definition remove_member_at :: "nat \<Rightarrow> string \<Rightarrow> binding list \<Rightarrow> binding list option" where
  "remove_member_at idx member bs =
     (if idx < length bs then
        (let policyBinding = bs ! idx;
             newMembers = filter (\<lambda>m. m \<noteq> member) (Members policyBinding)
         in if newMembers = [] then Some (take idx bs @ drop (Suc idx) bs)
            else Some (bs[idx := policyBinding\<lparr>Members := newMembers\<rparr>]))
      else None)"

text \<open>
  The removal loop, \<open>for i := len(bindings) - 1; i >= 0; i--\<close>: the first
  argument is \<open>i + 1\<close>.
\<close>

fun remove_loop :: "nat \<Rightarrow> temporaryBinding list \<Rightarrow> binding list \<Rightarrow> world \<Rightarrow> binding list option \<times> world" where
  "remove_loop 0 tbs bs w = (Some bs, w)"
| "remove_loop (Suc i) tbs bs w =
     (let t = tbs ! i;
          w1 = logger Info (RemovingBinding (tb_Role t) (tb_Member t)) w
      in case remove_member_at (tb_Index t) (tb_Member t) bs of
           None \<Rightarrow> (None, w1)
         | Some bs' \<Rightarrow> remove_loop i tbs bs' w1)"

definition CleanTemporaryBindings :: "GCPProvider \<Rightarrow> options \<Rightarrow> world \<Rightarrow> result \<times> world" where
  "CleanTemporaryBindings p opts w =
     (case opts of
        OtherOptions \<Rightarrow> (Error InvalidOptionsType, w)
      | GCP gcpOpts \<Rightarrow>
          (case getIAMPolicy (Project gcpOpts) w of
             (Inl err, w1) \<Rightarrow> (Error (FetchIAMPolicyFailed err), w1)
           | (Inr pol, w1) \<Rightarrow>
               (let tbs = collect_bindings gcpOpts 0 (Bindings pol)
                in if tbs = [] then (OK, logger Info NoTemporaryBindingsFound w1)
                   else
                     (let w2 = report_bindings p tbs w1
                      in if dryRun p then (OK, w2)
                         else
                           (case remove_loop (length tbs) tbs (Bindings pol) w2 of
                              (None, w3) \<Rightarrow> (Panic, w3)
                            | (Some bs', w3) \<Rightarrow>
                                (case setIAMPolicy (Project gcpOpts) (pol\<lparr>Bindings := bs'\<rparr>) w3 of
                                   (Some err, w4) \<Rightarrow> (Error (UpdateIAMPolicyFailed err), w4)
                                 | (None, w4) \<Rightarrow> (OK, logger Info (CleanedUp (length tbs)) w4)))))))"

subsection \<open>The stable rebuild, as the specification describes it\<close>

text \<open>
  The reference the removal loop is compared with, written from the
  specification's words and not from the code: the matches are collected by
  identity (a marked binding and one of its members that passes the filter), and
  the collection is rebuilt in its order, each binding without its matched
  members, and without the bindings that had a match and keep no member.
\<close>

definition is_temporary :: "binding \<Rightarrow> bool" where
  "is_temporary b =
     (case Condition b of None \<Rightarrow> False | Some c \<Rightarrow> prefix gcpBindingTitlePrefix (Title c))"

definition is_match :: "GCPOptions \<Rightarrow> binding \<Rightarrow> string \<Rightarrow> bool" where
  "is_match opt b member = (is_temporary b \<and> member_matches opt member)"

definition rebuild_binding :: "GCPOptions \<Rightarrow> binding \<Rightarrow> binding list" where
  "rebuild_binding opt b =
     (let kept = filter (\<lambda>m. \<not> is_match opt b m) (Members b)
      in if kept = [] \<and> filter (is_match opt b) (Members b) \<noteq> [] then []
         else [b\<lparr>Members := kept\<rparr>])"

definition stable_rebuild :: "GCPOptions \<Rightarrow> binding list \<Rightarrow> binding list" where
  "stable_rebuild opt bs = concat (map (rebuild_binding opt) bs)"

text \<open>No marked binding lists a member that passes the filter more than once.\<close>

definition no_repeated_match :: "GCPOptions \<Rightarrow> binding list \<Rightarrow> bool" where
  "no_repeated_match opt bs =
     list_all (\<lambda>b. is_temporary b \<longrightarrow> distinct (filter (member_matches opt) (Members b))) bs"

subsection \<open>Reading the trace of remote calls\<close>

text \<open>
  The calls an operation added to the trace, the policies it sent in a
  set-policy call, the projects it fetched, and the number of its set-policy
  calls that the service accepted (\<open>k\<close> is the position of the first call of
  the list in the whole trace).
\<close>

definition new_calls :: "world \<Rightarrow> world \<Rightarrow> api_call list" where
  "new_calls w w' = drop (length (api_calls w)) (api_calls w')"

fun set_policy_calls :: "api_call list \<Rightarrow> (string \<times> policy) list" where
  "set_policy_calls [] = []"
| "set_policy_calls (GetIamPolicyCall pr # cs) = set_policy_calls cs"
| "set_policy_calls (SetIamPolicyCall pr pol # cs) = (pr, pol) # set_policy_calls cs"

fun get_policy_calls :: "api_call list \<Rightarrow> string list" where
  "get_policy_calls [] = []"
| "get_policy_calls (GetIamPolicyCall pr # cs) = pr # get_policy_calls cs"
| "get_policy_calls (SetIamPolicyCall pr pol # cs) = get_policy_calls cs"

fun accepted_writes :: "(nat \<Rightarrow> string option) \<Rightarrow> nat \<Rightarrow> api_call list \<Rightarrow> nat" where
  "accepted_writes f k [] = 0"
| "accepted_writes f k (GetIamPolicyCall pr # cs) = accepted_writes f (Suc k) cs"
| "accepted_writes f k (SetIamPolicyCall pr pol # cs) =
     (if f k = None then 1 else 0) + accepted_writes f (Suc k) cs"

text \<open>Every policy sent in a set-policy call of the list has the version of the package.\<close>

definition versioned :: "api_call list \<Rightarrow> bool" where
  "versioned cs = list_all (\<lambda>(pr, pol). Version pol = policyVersion) (set_policy_calls cs)"

text \<open>The title \<open>createBinding\<close> derives from the k-th reading of the clock \<open>c\<close>.\<close>

definition title_at :: "(nat \<Rightarrow> int) \<Rightarrow> nat \<Rightarrow> string" where
  "title_at c k = gcpBindingTitlePrefix @ ''_'' @ sprint_d (UnixNano (c k))"

text \<open>The grants an invocation of \<open>Grant\<close> recorded.\<close>

definition new_grants :: "GCPProvider \<Rightarrow> GCPProvider \<Rightarrow> GrantedRole list" where
  "new_grants p p' = drop (length (grantedRoles p)) (grantedRoles p')"

text \<open>Whether a binding is one of the session's recorded grants.\<close>

definition is_own :: "GCPProvider \<Rightarrow> binding \<Rightarrow> bool" where
  "is_own p b = list_ex (\<lambda>g. is_granted g b) (grantedRoles p)"

text \<open>
  What \<open>Revoke\<close> is expected to send and to leave behind, outside dry-run
  mode, when \<open>k\<close> is the position of its next remote call, \<open>f\<close> tells which
  calls fail and \<open>bs\<close> are the bindings stored for the project: for every
  recorded grant whose fetch succeeds, one policy is sent, the stored bindings with
  the member removed for that grant; the stored bindings become the sent ones when
  the write is accepted.
\<close>

fun revoke_sent :: "(nat \<Rightarrow> string option) \<Rightarrow> nat \<Rightarrow> string \<Rightarrow> GrantedRole list \<Rightarrow> binding list
    \<Rightarrow> binding list list" where
  "revoke_sent f k member [] bs = []"
| "revoke_sent f k member (g # gs) bs =
     (if f k \<noteq> None then revoke_sent f (Suc k) member gs bs
      else revoke_binding g member bs
        # revoke_sent f (Suc (Suc k)) member gs
            (if f (Suc k) = None then revoke_binding g member bs else bs))"

fun revoked_bindings :: "(nat \<Rightarrow> string option) \<Rightarrow> nat \<Rightarrow> string \<Rightarrow> GrantedRole list \<Rightarrow> binding list
    \<Rightarrow> binding list" where
  "revoked_bindings f k member [] bs = bs"
| "revoked_bindings f k member (g # gs) bs =
     (if f k \<noteq> None then revoked_bindings f (Suc k) member gs bs
      else revoked_bindings f (Suc (Suc k)) member gs
             (if f (Suc k) = None then revoke_binding g member bs else bs))"

text \<open>
  The effect of the removal loop on the bindings alone, for a list of entries in
  the order the loop takes them.
\<close>

fun remove_entries :: "temporaryBinding list \<Rightarrow> binding list \<Rightarrow> binding list option" where
  "remove_entries [] bs = Some bs"
| "remove_entries (t # ts) bs =
     (case remove_member_at (tb_Index t) (tb_Member t) bs of
        None \<Rightarrow> None
      | Some bs' \<Rightarrow> remove_entries ts bs')"

text \<open>
  Every member of a marked binding of \<open>cur\<close> that passes the filter still has an
  entry in \<open>E\<close> with the binding's position.
\<close>

definition covered :: "GCPOptions \<Rightarrow> temporaryBinding list \<Rightarrow> binding list \<Rightarrow> bool" where
  "covered opt E cur \<longleftrightarrow>
     (\<forall>j < length cur. \<forall>m \<in> set (Members (cur ! j)).
        is_temporary (cur ! j) \<and> member_matches opt m \<longrightarrow>
        (\<exists>t \<in> set E. tb_Index t = j \<and> tb_Member t = m))"

text \<open>
  The log entries an operation added, and whether an entry of
  \<open>ListTemporaryBindings\<close> that reports a binding names a member with the
  prefix \<open>user:\<close>.
\<close>

definition new_logs :: "world \<Rightarrow> world \<Rightarrow> (level \<times> message) list" where
  "new_logs w w' = drop (length (logs w)) (logs w')"

fun reports_user :: "level \<times> message \<Rightarrow> bool" where
  "reports_user (l, FoundTemporaryBinding role member expires bid) = prefix ''user:'' member"
| "reports_user (l, m) = True"

text \<open>A binding that has members, none of them with the prefix \<open>user:\<close>.\<close>

definition no_user_member :: "binding \<Rightarrow> bool" where
  "no_user_member b = (Members b \<noteq> [] \<and> list_all (\<lambda>m. \<not> prefix ''user:'' m) (Members b))"

subsection \<open>Sample inputs\<close>

definition marked :: "string \<Rightarrow> string \<Rightarrow> string list \<Rightarrow> binding" where
  "marked role tag ms =
     \<lparr>Role = role, Members = ms,
      Condition = Some \<lparr>Title = gcpBindingTitlePrefix @ tag, Description = [], Expression = []\<rparr>\<rparr>"

definition unconditional :: "string \<Rightarrow> string list \<Rightarrow> binding" where
  "unconditional role ms = \<lparr>Role = role, Members = ms, Condition = None\<rparr>"

definition sample_world :: "binding list \<Rightarrow> (nat \<Rightarrow> string option) \<Rightarrow> (nat \<Rightarrow> int) \<Rightarrow> world" where
  "sample_world bs f c =
     \<lparr>remote = (\<lambda>_. \<lparr>Bindings = bs, Version = 1\<rparr>), api_fault = f, api_calls = [],
      clock = c, clock_reads = 0, rfc3339 = (\<lambda>_. []), oauth = Userinfo ''a'', logs = []\<rparr>"

definition sample_session :: GCPProvider where
  "sample_session =
     \<lparr>dryRun = False,
      grantedRoles = [\<lparr>gr_Role = ''roles/viewer'', gr_BindingID = ''gta_temporary_access_1''\<rparr>]\<rparr>"

definition sample_options :: "string list \<Rightarrow> string \<Rightarrow> GCPOptions" where
  "sample_options rs u = \<lparr>Project = ''p'', Roles = rs, User = u, TTL = 1\<rparr>"

section \<open>Facts about the remote calls and the log\<close>

lemma logger_fields:
  "remote (logger l m w) = remote w"
  "api_fault (logger l m w) = api_fault w"
  "api_calls (logger l m w) = api_calls w"
  "clock (logger l m w) = clock w"
  "clock_reads (logger l m w) = clock_reads w"
  "rfc3339 (logger l m w) = rfc3339 w"
  "oauth (logger l m w) = oauth w"
  "logs (logger l m w) = logs w @ [(l, m)]"
  by (simp_all add: logger_def)

lemma set_policy_calls_append:
  "set_policy_calls (xs @ ys) = set_policy_calls xs @ set_policy_calls ys"
  by (induction xs rule: set_policy_calls.induct) simp_all

lemma get_policy_calls_append:
  "get_policy_calls (xs @ ys) = get_policy_calls xs @ get_policy_calls ys"
  by (induction xs rule: get_policy_calls.induct) simp_all

lemma accepted_writes_append:
  "accepted_writes f k (xs @ ys) = accepted_writes f k xs + accepted_writes f (k + length xs) ys"
  by (induction f k xs rule: accepted_writes.induct) simp_all

lemma new_calls_same: "api_calls w' = api_calls w \<Longrightarrow> new_calls w w' = []"
  by (simp add: new_calls_def)

lemma new_calls_append: "api_calls w' = api_calls w @ cs \<Longrightarrow> new_calls w w' = cs"
  by (simp add: new_calls_def)

lemma getIAMPolicy_world:
  "getIAMPolicy pr w = (x, w') \<Longrightarrow> w' = w\<lparr>api_calls := api_calls w @ [GetIamPolicyCall pr]\<rparr>"
  by (auto simp: getIAMPolicy_def Let_def split: option.splits)

lemma getIAMPolicy_Inr:
  "getIAMPolicy pr w = (Inr pol, w') \<Longrightarrow>
     api_fault w (length (api_calls w)) = None \<and> pol = (remote w pr)\<lparr>Version := policyVersion\<rparr>"
  by (auto simp: getIAMPolicy_def Let_def split: option.splits)

lemma getIAMPolicy_ok:
  "api_fault w (length (api_calls w)) = None \<Longrightarrow>
     getIAMPolicy pr w = (Inr ((remote w pr)\<lparr>Version := policyVersion\<rparr>),
       w\<lparr>api_calls := api_calls w @ [GetIamPolicyCall pr]\<rparr>)"
  by (simp add: getIAMPolicy_def Let_def)

lemma setIAMPolicy_Some:
  "setIAMPolicy pr pol w = (Some e, w') \<Longrightarrow>
     api_fault w (length (api_calls w)) \<noteq> None \<and>
     w' = w\<lparr>api_calls := api_calls w @ [SetIamPolicyCall pr pol]\<rparr>"
  by (auto simp: setIAMPolicy_def Let_def split: option.splits)

lemma setIAMPolicy_None:
  "setIAMPolicy pr pol w = (None, w') \<Longrightarrow>
     api_fault w (length (api_calls w)) = None \<and>
     w' = w\<lparr>api_calls := api_calls w @ [SetIamPolicyCall pr pol], remote := (remote w)(pr := pol)\<rparr>"
  by (auto simp: setIAMPolicy_def Let_def split: option.splits)

lemma createBinding_world:
  "createBinding role member ttl w = (b, w') \<Longrightarrow>
     w' = w\<lparr>clock_reads := Suc (Suc (Suc (clock_reads w)))\<rparr>"
  by (auto simp: createBinding_def now_def Let_def)

lemma createBinding_title:
  "createBinding role member ttl w = (b, w') \<Longrightarrow>
     conditionTitle b = gcpBindingTitlePrefix @ ''_'' @ sprint_d (UnixNano (clock w (Suc (clock_reads w))))"
  by (auto simp: createBinding_def now_def Let_def conditionTitle_def)

subsection \<open>Grant\<close>

text \<open>One pass of the loop of \<open>Grant\<close>, by the branch it takes.\<close>

lemma grant_loop_step:
  assumes "grant_loop opt member (role # roles) p errs w = res"
  obtains
    (dry) "dryRun p"
      "grant_loop opt member roles p errs
         (logger Info (DryRunWouldGrant (formatRole role) (User opt) (Project opt))
           (logger Info (GrantingRole (formatRole role) (User opt) (Project opt) (TTL opt)) w)) = res"
  | (get_failed) err w2 where "\<not> dryRun p"
      "getIAMPolicy (Project opt)
         (logger Info (GrantingRole (formatRole role) (User opt) (Project opt) (TTL opt)) w) = (Inl err, w2)"
      "grant_loop opt member roles p (errs @ [(formatRole role, err)])
         (logger Warn (FailedToGetPolicyForRole (formatRole role) err) w2) = res"
  | (set_failed) pol w2 b w3 err w4 where "\<not> dryRun p"
      "getIAMPolicy (Project opt)
         (logger Info (GrantingRole (formatRole role) (User opt) (Project opt) (TTL opt)) w) = (Inr pol, w2)"
      "createBinding (formatRole role) member (TTL opt) w2 = (b, w3)"
      "setIAMPolicy (Project opt) (pol\<lparr>Bindings := Bindings pol @ [b]\<rparr>) w3 = (Some err, w4)"
      "grant_loop opt member roles p (errs @ [(formatRole role, err)])
         (logger Warn (FailedToSetPolicyForRole (formatRole role) err) w4) = res"
  | (granted) pol w2 b w3 w4 where "\<not> dryRun p"
      "getIAMPolicy (Project opt)
         (logger Info (GrantingRole (formatRole role) (User opt) (Project opt) (TTL opt)) w) = (Inr pol, w2)"
      "createBinding (formatRole role) member (TTL opt) w2 = (b, w3)"
      "setIAMPolicy (Project opt) (pol\<lparr>Bindings := Bindings pol @ [b]\<rparr>) w3 = (None, w4)"
      "grant_loop opt member roles
         (p\<lparr>grantedRoles := grantedRoles p
              @ [\<lparr>gr_Role = formatRole role, gr_BindingID = conditionTitle b\<rparr>]\<rparr>) errs w4 = res"
  using assms
  by (auto simp: Let_def split: prod.splits sum.splits option.splits if_splits)

text \<open>\<open>Grant\<close> is its loop followed by the final test, once the user is known.\<close>

lemma Grant_resolved:
  assumes "User opt = [] \<Longrightarrow> \<exists>u. getCurrentUser w = Inr u"
  obtains opt' w0 where
    "Grant p (GCP opt) w = grant_finish (grant_loop opt' (formatMember (User opt')) (Roles opt) p [] w0) opt'"
    "Roles opt' = Roles opt" "Project opt' = Project opt"
    "api_calls w0 = api_calls w" "remote w0 = remote w" "api_fault w0 = api_fault w"
    "clock w0 = clock w" "clock_reads w0 = clock_reads w"
proof (cases "User opt = []")
  case True
  with assms obtain u where u: "getCurrentUser w = Inr u" by blast
  show ?thesis
    by (rule that [of "opt\<lparr>User := u\<rparr>" "logger Debug (UsingCurrentUser u) w"])
      (simp_all add: Grant_def True u Let_def logger_fields)
next
  case False
  show ?thesis
    by (rule that [of opt w]) (simp_all add: Grant_def False)
qed


lemma grant_loop_trace:
  "grant_loop opt member roles p errs w = (p', errs', w') \<Longrightarrow>
     \<exists>cs gs es. api_calls w' = api_calls w @ cs \<and> api_fault w' = api_fault w
       \<and> grantedRoles p' = grantedRoles p @ gs \<and> errs' = errs @ es \<and> dryRun p' = dryRun p
       \<and> versioned cs
       \<and> length gs = accepted_writes (api_fault w) (length (api_calls w)) cs
       \<and> (\<not> dryRun p \<longrightarrow>
            length (get_policy_calls cs) = length roles \<and> length gs + length es = length roles)"
proof (induction roles arbitrary: p errs w)
  case Nil
  then show ?case by (simp add: versioned_def)
next
  case (Cons role roles)
  from Cons.prems show ?case
  proof (cases rule: grant_loop_step)
    case dry
    from Cons.IH [OF dry(2)] dry(1) show ?thesis
      by (simp add: logger_fields)
  next
    case (get_failed err w2)
    from getIAMPolicy_world [OF get_failed(2)]
    have w2: "api_calls w2 = api_calls w @ [GetIamPolicyCall (Project opt)]" "api_fault w2 = api_fault w"
      by (simp_all add: logger_fields)
    from Cons.IH [OF get_failed(3)] obtain cs gs es where ih:
      "api_calls w' = (api_calls w @ [GetIamPolicyCall (Project opt)]) @ cs"
      "api_fault w' = api_fault w" "grantedRoles p' = grantedRoles p @ gs"
      "errs' = (errs @ [(formatRole role, err)]) @ es" "dryRun p' = dryRun p"
      "versioned cs"
      "length gs = accepted_writes (api_fault w) (Suc (length (api_calls w))) cs"
      "length (get_policy_calls cs) = length roles" "length gs + length es = length roles"
      using get_failed(1) by (auto simp: logger_fields w2)
    show ?thesis
      apply (rule exI [of _ "GetIamPolicyCall (Project opt) # cs"])
      apply (rule exI [of _ gs])
      apply (rule exI [of _ "(formatRole role, err) # es"])
      using ih by (simp add: versioned_def)
  next
    case (set_failed pol w2 b w3 err w4)
    from getIAMPolicy_world [OF set_failed(2)] getIAMPolicy_Inr [OF set_failed(2)]
    have w2: "api_calls w2 = api_calls w @ [GetIamPolicyCall (Project opt)]" "api_fault w2 = api_fault w"
      and pol: "Version pol = policyVersion"
      by (simp_all add: logger_fields)
    from createBinding_world [OF set_failed(3)]
    have w3: "api_calls w3 = api_calls w2" "api_fault w3 = api_fault w2" by simp_all
    from setIAMPolicy_Some [OF set_failed(4)]
    have w4: "api_calls w4 = api_calls w3 @ [SetIamPolicyCall (Project opt) (pol\<lparr>Bindings := Bindings pol @ [b]\<rparr>)]"
      "api_fault w4 = api_fault w3" and flt: "api_fault w3 (length (api_calls w3)) \<noteq> None"
      by simp_all
    from Cons.IH [OF set_failed(5)] obtain cs gs es where ih:
      "api_calls w' = (api_calls w @ [GetIamPolicyCall (Project opt),
          SetIamPolicyCall (Project opt) (pol\<lparr>Bindings := Bindings pol @ [b]\<rparr>)]) @ cs"
      "api_fault w' = api_fault w" "grantedRoles p' = grantedRoles p @ gs"
      "errs' = (errs @ [(formatRole role, err)]) @ es" "dryRun p' = dryRun p"
      "versioned cs"
      "length gs = accepted_writes (api_fault w) (Suc (Suc (length (api_calls w)))) cs"
      "length (get_policy_calls cs) = length roles" "length gs + length es = length roles"
      using set_failed(1) by (auto simp: logger_fields w2 w3 w4)
    from flt have flt': "api_fault w (Suc (length (api_calls w))) \<noteq> None"
      by (simp add: w2 w3)
    show ?thesis
      apply (rule exI [of _ "GetIamPolicyCall (Project opt)
          # SetIamPolicyCall (Project opt) (pol\<lparr>Bindings := Bindings pol @ [b]\<rparr>) # cs"])
      apply (rule exI [of _ gs])
      apply (rule exI [of _ "(formatRole role, err) # es"])
      using ih pol flt' by (simp add: versioned_def)
  next
    case (granted pol w2 b w3 w4)
    from getIAMPolicy_world [OF granted(2)] getIAMPolicy_Inr [OF granted(2)]
    have w2: "api_calls w2 = api_calls w @ [GetIamPolicyCall (Project opt)]" "api_fault w2 = api_fault w"
      and pol: "Version pol = policyVersion"
      by (simp_all add: logger_fields)
    from createBinding_world [OF granted(3)]
    have w3: "api_calls w3 = api_calls w2" "api_fault w3 = api_fault w2" by simp_all
    from setIAMPolicy_None [OF granted(4)]
    have w4: "api_calls w4 = api_calls w3 @ [SetIamPolicyCall (Project opt) (pol\<lparr>Bindings := Bindings pol @ [b]\<rparr>)]"
      "api_fault w4 = api_fault w3" and flt: "api_fault w3 (length (api_calls w3)) = None"
      by simp_all
    from Cons.IH [OF granted(5)] obtain cs gs es where ih:
      "api_calls w' = (api_calls w @ [GetIamPolicyCall (Project opt),
          SetIamPolicyCall (Project opt) (pol\<lparr>Bindings := Bindings pol @ [b]\<rparr>)]) @ cs"
      "api_fault w' = api_fault w"
      "grantedRoles p' = (grantedRoles p @ [\<lparr>gr_Role = formatRole role, gr_BindingID = conditionTitle b\<rparr>]) @ gs"
      "errs' = errs @ es" "dryRun p' = dryRun p"
      "versioned cs"
      "length gs = accepted_writes (api_fault w) (Suc (Suc (length (api_calls w)))) cs"
      "length (get_policy_calls cs) = length roles" "length gs + length es = length roles"
      using granted(1) by (auto simp: logger_fields w2 w3 w4)
    from flt have flt': "api_fault w (Suc (length (api_calls w))) = None"
      by (simp add: w2 w3)
    show ?thesis
      apply (rule exI [of _ "GetIamPolicyCall (Project opt)
          # SetIamPolicyCall (Project opt) (pol\<lparr>Bindings := Bindings pol @ [b]\<rparr>) # cs"])
      apply (rule exI [of _ "\<lparr>gr_Role = formatRole role, gr_BindingID = conditionTitle b\<rparr> # gs"])
      apply (rule exI [of _ es])
      using ih pol flt' by (simp add: versioned_def)
  qed
qed

lemma grant_loop_dry_run:
  "dryRun p \<Longrightarrow> grant_loop opt member roles p errs w = (p', errs', w')
    \<Longrightarrow> p' = p \<and> errs' = errs \<and> api_calls w' = api_calls w \<and> remote w' = remote w"
proof (induction roles arbitrary: w)
  case Nil
  then show ?case by simp
next
  case (Cons role roles)
  from Cons.prems(2) show ?case
  proof (cases rule: grant_loop_step)
    case dry
    from Cons.IH [OF Cons.prems(1) dry(2)] show ?thesis by (simp add: logger_fields)
  qed (simp_all add: Cons.prems(1))
qed


subsection \<open>Evaluating the sample inputs\<close>

lemmas sample_defs = sample_world_def sample_options_def marked_def unconditional_def
  NewGCPProvider_def sample_session_def

lemmas run_defs = Grant_def grant_finish_def getIAMPolicy_def setIAMPolicy_def createBinding_def
  now_def logger_def formatRole_def formatMember_def rolePrefix_def gcpBindingTitlePrefix_def
  policyVersion_def conditionTitle_def Let_def

lemma sprint_d_0: "sprint_d (UnixNano 0) = ''0''"
  by (simp add: sprint_d_def UnixNano_def digits.simps digit_char_def)

lemma sprint_d_1: "sprint_d (UnixNano 1) = ''1''"
  by (simp add: sprint_d_def UnixNano_def digits.simps digit_char_def)

lemma sprint_d_4: "sprint_d (UnixNano 4) = ''4''"
  by (simp add: sprint_d_def UnixNano_def digits.simps digit_char_def)

lemma Grant_outcome:
  assumes user: "User opt = [] \<Longrightarrow> \<exists>u. getCurrentUser w = Inr u"
    and run: "Grant p (GCP opt) w = (r, p', opts', w')"
  obtains cs gs es where
    "new_calls w w' = cs" "grantedRoles p' = grantedRoles p @ gs" "dryRun p' = dryRun p"
    "versioned cs"
    "length gs = accepted_writes (api_fault w) (length (api_calls w)) cs"
    "\<not> dryRun p \<longrightarrow> length (get_policy_calls cs) = length (Roles opt)"
    "\<not> dryRun p \<longrightarrow> length gs + length es = length (Roles opt)"
    "r = (if es \<noteq> [] \<and> grantedRoles p' = [] then Error (GrantAnyRolesFailed es) else OK)"
    "es \<noteq> [] \<and> grantedRoles p' \<noteq> [] \<longrightarrow> (\<exists>ls. logs w' = ls @ [(Warn, FailedToGrantSomeRoles es)])"
proof -
  from user obtain opt' w0 where G:
    "Grant p (GCP opt) w = grant_finish (grant_loop opt' (formatMember (User opt')) (Roles opt) p [] w0) opt'"
    and w0: "api_calls w0 = api_calls w" "api_fault w0 = api_fault w"
    by (rule Grant_resolved)
  obtain p1 e1 w1 where loop:
    "grant_loop opt' (formatMember (User opt')) (Roles opt) p [] w0 = (p1, e1, w1)"
    by (metis prod_cases3)
  from grant_loop_trace [OF loop] obtain cs gs where tr:
    "api_calls w1 = api_calls w @ cs" "grantedRoles p1 = grantedRoles p @ gs" "dryRun p1 = dryRun p"
    "versioned cs"
    "length gs = accepted_writes (api_fault w) (length (api_calls w)) cs"
    "\<not> dryRun p \<longrightarrow> length (get_policy_calls cs) = length (Roles opt) \<and> length gs + length e1 = length (Roles opt)"
    by (auto simp: w0)
  from run G loop have fin: "grant_finish (p1, e1, w1) opt' = (r, p', opts', w')" by simp
  then have p': "p' = p1" and calls: "api_calls w' = api_calls w1"
    by (auto simp: grant_finish_def logger_fields split: if_splits)
  show ?thesis
  proof (rule that [of cs gs e1])
    show "new_calls w w' = cs" by (simp add: calls tr(1) new_calls_append)
    show "grantedRoles p' = grantedRoles p @ gs" by (simp add: p' tr(2))
    show "dryRun p' = dryRun p" by (simp add: p' tr(3))
    show "versioned cs" by (rule tr(4))
    show "length gs = accepted_writes (api_fault w) (length (api_calls w)) cs" by (rule tr(5))
    show "\<not> dryRun p \<longrightarrow> length (get_policy_calls cs) = length (Roles opt)" using tr(6) by simp
    show "\<not> dryRun p \<longrightarrow> length gs + length e1 = length (Roles opt)" using tr(6) by simp
    show "r = (if e1 \<noteq> [] \<and> grantedRoles p' = [] then Error (GrantAnyRolesFailed e1) else OK)"
      using fin by (auto simp: grant_finish_def split: if_splits)
    show "e1 \<noteq> [] \<and> grantedRoles p' \<noteq> [] \<longrightarrow> (\<exists>ls. logs w' = ls @ [(Warn, FailedToGrantSomeRoles e1)])"
      using fin by (auto simp: grant_finish_def logger_fields split: if_splits)
  qed
qed

text \<open>
  Claim C10. When the provider is in dry-run mode and the user is given or can be
  resolved, \<open>Grant\<close> returns \<open>nil\<close> whatever the roles are, makes no call to
  the resource manager (no fetch and no write, so the stored policies are the
  same) and records no grant.
\<close>


theorem Grant_dry_run_no_effect:
  assumes dry: "dryRun p"
    and user: "User opt = [] \<Longrightarrow> \<exists>u. getCurrentUser w = Inr u"
    and run: "Grant p (GCP opt) w = (r, p', opts', w')"
  shows "r = OK \<and> new_calls w w' = [] \<and> remote w' = remote w \<and> grantedRoles p' = grantedRoles p"
proof -
  from user obtain opt' w0 where G:
    "Grant p (GCP opt) w = grant_finish (grant_loop opt' (formatMember (User opt')) (Roles opt) p [] w0) opt'"
    and w0: "api_calls w0 = api_calls w" "remote w0 = remote w"
    by (rule Grant_resolved)
  obtain p1 e1 w1 where loop:
    "grant_loop opt' (formatMember (User opt')) (Roles opt) p [] w0 = (p1, e1, w1)"
    by (metis prod_cases3)
  from grant_loop_dry_run [OF dry loop]
  have "p1 = p" "e1 = []" "api_calls w1 = api_calls w" "remote w1 = remote w"
    by (simp_all add: w0)
  with run G loop show ?thesis
    by (auto simp: grant_finish_def new_calls_same)
qed

text \<open>A dry run over two roles, with the user resolved from the credentials.\<close>

theorem Grant_dry_run_no_effect_witness:
  "dryRun (NewGCPProvider True)
   \<and> getCurrentUser (sample_world [] (\<lambda>_. None) int) = Inr ''a''
   \<and> fst (Grant (NewGCPProvider True) (GCP (sample_options [''viewer'', ''editor''] []))
        (sample_world [] (\<lambda>_. None) int)) = OK
   \<and> api_calls (snd (snd (snd (Grant (NewGCPProvider True) (GCP (sample_options [''viewer'', ''editor''] []))
        (sample_world [] (\<lambda>_. None) int))))) = []
   \<and> grantedRoles (fst (snd (Grant (NewGCPProvider True) (GCP (sample_options [''viewer'', ''editor''] []))
        (sample_world [] (\<lambda>_. None) int)))) = []"
proof -
  let ?w = "sample_world [] (\<lambda>_. None) int"
  let ?G = "Grant (NewGCPProvider True) (GCP (sample_options [''viewer'', ''editor''] [])) ?w"
  have d: "dryRun (NewGCPProvider True)" by (simp add: NewGCPProvider_def)
  have u: "getCurrentUser ?w = Inr ''a''" by (simp add: getCurrentUser_def sample_world_def)
  have e: "api_calls ?w = []" "grantedRoles (NewGCPProvider True) = []"
    by (simp_all add: sample_world_def NewGCPProvider_def)
  from Grant_dry_run_no_effect [of "NewGCPProvider True" "sample_options [''viewer'', ''editor''] []" ?w
      "fst ?G" "fst (snd ?G)" "fst (snd (snd ?G))" "snd (snd (snd ?G))"] d u
  have "fst ?G = OK \<and> new_calls ?w (snd (snd (snd ?G))) = []
      \<and> grantedRoles (fst (snd ?G)) = grantedRoles (NewGCPProvider True)"
    by simp
  with d u e show ?thesis by (simp add: new_calls_def)
qed

lemma Grant_unresolved:
  assumes "User opt = []" and "getCurrentUser w = Inl e"
  shows "Grant p (GCP opt) w = (Error (GetCurrentUserFailed e), p, GCP opt, w)"
  using assms by (simp add: Grant_def)

text \<open>
  What \<open>Grant\<close> returns outside dry-run mode. Once the user is given or
  resolved it fetches the policy once for every role, whatever failed before; it
  records one grant for every write the service accepted; when it recorded a grant
  it returns \<open>nil\<close>; when it recorded none and the role list is not empty, it
  returns an error if the session's list of grants is empty (as on a provider made
  by \<open>NewGCPProvider\<close>), and \<open>nil\<close> if the list holds grants of an earlier
  invocation; and whenever it returns \<open>nil\<close> after a failure, its last log
  entry is the warning that lists the failures. When the user cannot be resolved
  no role is tried and the result is an error.
\<close>

lemma Grant_partial_success:
  assumes wet: "\<not> dryRun p"
    and run: "Grant p (GCP opt) w = (r, p', opts', w')"
  shows "(User opt \<noteq> [] \<or> (\<exists>u. getCurrentUser w = Inr u) \<longrightarrow>
            length (get_policy_calls (new_calls w w')) = length (Roles opt))
    \<and> grantedRoles p' = grantedRoles p @ new_grants p p'
    \<and> length (new_grants p p') = accepted_writes (api_fault w) (length (api_calls w)) (new_calls w w')
    \<and> (new_grants p p' \<noteq> [] \<longrightarrow> r = OK)
    \<and> (new_grants p p' = [] \<and> Roles opt \<noteq> [] \<and> grantedRoles p = [] \<longrightarrow>
         (\<exists>e. r = Error e
            \<and> (User opt \<noteq> [] \<or> (\<exists>u. getCurrentUser w = Inr u) \<longrightarrow>
                 (\<exists>es. e = GrantAnyRolesFailed es \<and> length es = length (Roles opt)))))
    \<and> (new_grants p p' = [] \<and> grantedRoles p \<noteq> []
          \<and> (User opt \<noteq> [] \<or> (\<exists>u. getCurrentUser w = Inr u)) \<longrightarrow> r = OK)
    \<and> (r = OK \<and> length (new_grants p p') < length (Roles opt) \<longrightarrow>
         (\<exists>es ls. length (new_grants p p') + length es = length (Roles opt)
            \<and> logs w' = ls @ [(Warn, FailedToGrantSomeRoles es)]))"
proof (cases "User opt \<noteq> [] \<or> (\<exists>u. getCurrentUser w = Inr u)")
  case False
  then obtain e where "User opt = []" "getCurrentUser w = Inl e"
    by (cases "getCurrentUser w") auto
  from Grant_unresolved [OF this] run have "r = Error (GetCurrentUserFailed e)" "p' = p" "w' = w"
    by simp_all
  with False show ?thesis by (simp add: new_grants_def new_calls_def)
next
  case True
  then have user: "User opt = [] \<Longrightarrow> \<exists>u. getCurrentUser w = Inr u" by blast
  obtain cs gs es where o:
    "new_calls w w' = cs" "grantedRoles p' = grantedRoles p @ gs" "dryRun p' = dryRun p"
    "versioned cs"
    "length gs = accepted_writes (api_fault w) (length (api_calls w)) cs"
    "\<not> dryRun p \<longrightarrow> length (get_policy_calls cs) = length (Roles opt)"
    "\<not> dryRun p \<longrightarrow> length gs + length es = length (Roles opt)"
    "r = (if es \<noteq> [] \<and> grantedRoles p' = [] then Error (GrantAnyRolesFailed es) else OK)"
    "es \<noteq> [] \<and> grantedRoles p' \<noteq> [] \<longrightarrow> (\<exists>ls. logs w' = ls @ [(Warn, FailedToGrantSomeRoles es)])"
    by (rule Grant_outcome [OF user run])
  have ng: "new_grants p p' = gs" by (simp add: new_grants_def o(2))
  have len: "length gs + length es = length (Roles opt)" using o(7) wet by simp
  have a: "length (get_policy_calls (new_calls w w')) = length (Roles opt)"
    using o(1) o(6) wet by simp
  have b: "grantedRoles p' = grantedRoles p @ new_grants p p'" by (simp add: ng o(2))
  have c: "length (new_grants p p') = accepted_writes (api_fault w) (length (api_calls w)) (new_calls w w')"
    by (simp add: ng o(1) o(5))
  have d: "new_grants p p' \<noteq> [] \<longrightarrow> r = OK" by (simp add: ng o(8) o(2))
  have e: "new_grants p p' = [] \<and> Roles opt \<noteq> [] \<and> grantedRoles p = [] \<longrightarrow>
         (\<exists>e. r = Error e \<and> (\<exists>es. e = GrantAnyRolesFailed es \<and> length es = length (Roles opt)))"
    using len by (auto simp: ng o(8) o(2))
  have f: "new_grants p p' = [] \<and> grantedRoles p \<noteq> [] \<longrightarrow> r = OK" by (simp add: ng o(8) o(2))
  have g: "r = OK \<and> length (new_grants p p') < length (Roles opt) \<longrightarrow>
         (\<exists>es ls. length (new_grants p p') + length es = length (Roles opt)
            \<and> logs w' = ls @ [(Warn, FailedToGrantSomeRoles es)])"
  proof (intro impI)
    assume h: "r = OK \<and> length (new_grants p p') < length (Roles opt)"
    with len have es: "es \<noteq> []" by (auto simp: ng)
    with h have "grantedRoles p' \<noteq> []" by (auto simp: o(8) split: if_splits)
    with o(9) es obtain ls where "logs w' = ls @ [(Warn, FailedToGrantSomeRoles es)]" by blast
    with len show "\<exists>es ls. length (new_grants p p') + length es = length (Roles opt)
            \<and> logs w' = ls @ [(Warn, FailedToGrantSomeRoles es)]"
      by (auto simp: ng)
  qed
  from a b c d e f g show ?thesis by blast
qed

text \<open>
  Two roles, the fetch for the first one fails, the second one is granted: the
  invocation returns \<open>nil\<close> with one recorded grant, after two fetches and one
  accepted write.
\<close>

lemma Grant_partial_success_sample:
  "let p = NewGCPProvider False;
       opt = sample_options [''viewer'', ''editor''] ''a'';
       w = sample_world [] (\<lambda>k. if k = 0 then Some ''unavailable'' else None) int;
       G = Grant p (GCP opt) w
   in \<not> dryRun p \<and> User opt \<noteq> [] \<and> fst G = OK
      \<and> new_grants p (fst (snd G)) = [\<lparr>gr_Role = ''roles/editor'', gr_BindingID = ''gta_temporary_access_1''\<rparr>]
      \<and> length (get_policy_calls (new_calls w (snd (snd (snd G))))) = 2
      \<and> accepted_writes (api_fault w) (length (api_calls w)) (new_calls w (snd (snd (snd G)))) = 1"
proof -
  let ?p = "NewGCPProvider False"
  let ?opt = "sample_options [''viewer'', ''editor''] ''a''"
  let ?w = "sample_world [] (\<lambda>k. if k = 0 then Some ''unavailable'' else None) int"
  let ?G = "Grant ?p (GCP ?opt) ?w"
  have h: "\<not> dryRun ?p" "User ?opt \<noteq> []" by (simp_all add: sample_defs)
  have r: "fst ?G = OK"
    by (simp add: sample_defs run_defs sprint_d_1)
  have g: "new_grants ?p (fst (snd ?G)) = [\<lparr>gr_Role = ''roles/editor'', gr_BindingID = ''gta_temporary_access_1''\<rparr>]"
    by (simp add: sample_defs run_defs sprint_d_1 new_grants_def)
  from Grant_partial_success [of ?p ?opt ?w "fst ?G" "fst (snd ?G)" "fst (snd (snd ?G))" "snd (snd (snd ?G))"] h
  have "length (get_policy_calls (new_calls ?w (snd (snd (snd ?G))))) = length (Roles ?opt)
    \<and> length (new_grants ?p (fst (snd ?G)))
        = accepted_writes (api_fault ?w) (length (api_calls ?w)) (new_calls ?w (snd (snd (snd ?G))))"
    by simp
  with h r g show ?thesis
    by (simp add: Let_def sample_options_def)
qed

text \<open>
  Claim C1. \<open>Grant\<close> is to return an error when every role of the invocation
  failed. The code tests the session's whole list of grants instead of the grants
  of this invocation: on a provider that recorded a grant in an earlier
  invocation, an invocation whose only role fails at its fetch writes nothing,
  records nothing, logs that some roles failed and returns \<open>nil\<close>; with the
  same options and the same world, a provider made by \<open>NewGCPProvider\<close>
  returns the error that no role was granted.
\<close>

theorem Grant_all_failed_after_earlier_grant:
  "let opts = GCP (sample_options [''editor''] ''a'');
       w = sample_world [] (\<lambda>_. Some ''unavailable'') int
   in Grant sample_session opts w
        = (OK, sample_session, opts,
           w\<lparr>api_calls := [GetIamPolicyCall ''p''],
             logs := [(Info, GrantingRole ''roles/editor'' ''a'' ''p'' 1),
                      (Warn, FailedToGetPolicyForRole ''roles/editor'' (GetIAMPolicyFailed ''unavailable'')),
                      (Warn, FailedToGrantSomeRoles [(''roles/editor'', GetIAMPolicyFailed ''unavailable'')])]\<rparr>)
      \<and> fst (Grant (NewGCPProvider False) opts w)
        = Error (GrantAnyRolesFailed [(''roles/editor'', GetIAMPolicyFailed ''unavailable'')])"
  by (simp add: Let_def sample_defs run_defs)

subsection \<open>Revoke\<close>

lemma versioned_append: "versioned (xs @ ys) \<longleftrightarrow> versioned xs \<and> versioned ys"
  by (simp add: versioned_def set_policy_calls_append)

lemma versioned_simps:
  "versioned []"
  "versioned (GetIamPolicyCall pr # cs) = versioned cs"
  "versioned (SetIamPolicyCall pr pol # cs) = (Version pol = policyVersion \<and> versioned cs)"
  by (simp_all add: versioned_def)

text \<open>One pass of the loop of \<open>Revoke\<close>, by the branch it takes.\<close>

lemma revoke_loop_step:
  assumes "revoke_loop p opt member (g # gs) errs w = res"
  obtains
    (dry) "dryRun p"
      "revoke_loop p opt member gs errs
         (logger Info (DryRunWouldRevoke (gr_Role g) (User opt) (Project opt))
           (logger Info (RevokingRole (gr_Role g) (User opt) (Project opt)) w)) = res"
  | (get_failed) err w2 where "\<not> dryRun p"
      "getIAMPolicy (Project opt)
         (logger Info (RevokingRole (gr_Role g) (User opt) (Project opt)) w) = (Inl err, w2)"
      "revoke_loop p opt member gs (errs @ [(gr_Role g, err)])
         (logger Warn (FailedToGetPolicyForRole (gr_Role g) err) w2) = res"
  | (set_failed) pol w2 err w3 where "\<not> dryRun p"
      "getIAMPolicy (Project opt)
         (logger Info (RevokingRole (gr_Role g) (User opt) (Project opt)) w) = (Inr pol, w2)"
      "setIAMPolicy (Project opt) (pol\<lparr>Bindings := revoke_binding g member (Bindings pol)\<rparr>) w2 = (Some err, w3)"
      "revoke_loop p opt member gs (errs @ [(gr_Role g, err)])
         (logger Warn (FailedToSetPolicyForRole (gr_Role g) err) w3) = res"
  | (revoked) pol w2 w3 where "\<not> dryRun p"
      "getIAMPolicy (Project opt)
         (logger Info (RevokingRole (gr_Role g) (User opt) (Project opt)) w) = (Inr pol, w2)"
      "setIAMPolicy (Project opt) (pol\<lparr>Bindings := revoke_binding g member (Bindings pol)\<rparr>) w2 = (None, w3)"
      "revoke_loop p opt member gs errs w3 = res"
  using assms
  by (auto simp: Let_def split: prod.splits sum.splits option.splits if_splits)

lemma revoke_loop_trace:
  "revoke_loop p opt member gs errs w = (errs', w') \<Longrightarrow>
     \<exists>cs. api_calls w' = api_calls w @ cs \<and> versioned cs"
proof (induction gs arbitrary: errs w)
  case Nil
  then show ?case by (simp add: versioned_simps)
next
  case (Cons g gs)
  from Cons.prems show ?case
  proof (cases rule: revoke_loop_step)
    case dry
    from Cons.IH [OF dry(2)] show ?thesis by (simp add: logger_fields)
  next
    case (get_failed err w2)
    from getIAMPolicy_world [OF get_failed(2)]
    have w2: "api_calls w2 = api_calls w @ [GetIamPolicyCall (Project opt)]"
      by (simp add: logger_fields)
    from Cons.IH [OF get_failed(3)] obtain cs where
      "api_calls w' = (api_calls w @ [GetIamPolicyCall (Project opt)]) @ cs" "versioned cs"
      by (auto simp: logger_fields w2)
    then show ?thesis
      by (intro exI [of _ "GetIamPolicyCall (Project opt) # cs"]) (simp add: versioned_simps)
  next
    case (set_failed pol w2 err w3)
    from getIAMPolicy_world [OF set_failed(2)] getIAMPolicy_Inr [OF set_failed(2)]
    have w2: "api_calls w2 = api_calls w @ [GetIamPolicyCall (Project opt)]"
      and pol: "Version pol = policyVersion"
      by (simp_all add: logger_fields)
    from setIAMPolicy_Some [OF set_failed(3)]
    have w3: "api_calls w3 = api_calls w2
        @ [SetIamPolicyCall (Project opt) (pol\<lparr>Bindings := revoke_binding g member (Bindings pol)\<rparr>)]"
      by simp
    from Cons.IH [OF set_failed(4)] obtain cs where
      "api_calls w' = (api_calls w @ [GetIamPolicyCall (Project opt),
         SetIamPolicyCall (Project opt) (pol\<lparr>Bindings := revoke_binding g member (Bindings pol)\<rparr>)]) @ cs"
      "versioned cs"
      by (auto simp: logger_fields w2 w3)
    with pol show ?thesis
      by (intro exI [of _ "GetIamPolicyCall (Project opt)
          # SetIamPolicyCall (Project opt) (pol\<lparr>Bindings := revoke_binding g member (Bindings pol)\<rparr>) # cs"])
        (simp add: versioned_simps)
  next
    case (revoked pol w2 w3)
    from getIAMPolicy_world [OF revoked(2)] getIAMPolicy_Inr [OF revoked(2)]
    have w2: "api_calls w2 = api_calls w @ [GetIamPolicyCall (Project opt)]"
      and pol: "Version pol = policyVersion"
      by (simp_all add: logger_fields)
    from setIAMPolicy_None [OF revoked(3)]
    have w3: "api_calls w3 = api_calls w2
        @ [SetIamPolicyCall (Project opt) (pol\<lparr>Bindings := revoke_binding g member (Bindings pol)\<rparr>)]"
      by simp
    from Cons.IH [OF revoked(4)] obtain cs where
      "api_calls w' = (api_calls w @ [GetIamPolicyCall (Project opt),
         SetIamPolicyCall (Project opt) (pol\<lparr>Bindings := revoke_binding g member (Bindings pol)\<rparr>)]) @ cs"
      "versioned cs"
      by (auto simp: logger_fields w2 w3)
    with pol show ?thesis
      by (intro exI [of _ "GetIamPolicyCall (Project opt)
          # SetIamPolicyCall (Project opt) (pol\<lparr>Bindings := revoke_binding g member (Bindings pol)\<rparr>) # cs"])
        (simp add: versioned_simps)
  qed
qed

lemma is_granted_Members [simp]: "is_granted g (b\<lparr>Members := ms\<rparr>) = is_granted g b"
  by (simp add: is_granted_def)

text \<open>The inner loop leaves alone every binding outside a set that holds the grant's bindings.\<close>

lemma revoke_binding_frame:
  assumes "\<And>b. is_granted g b \<Longrightarrow> own b"
  shows "filter (\<lambda>b. \<not> own b) (revoke_binding g member bs) = filter (\<lambda>b. \<not> own b) bs"
proof (induction bs)
  case Nil
  show ?case by simp
next
  case (Cons b bs)
  show ?case
  proof (cases "is_granted g b")
    case True
    then have "own b" "own (b\<lparr>Members := filter (\<lambda>m. m \<noteq> member) (Members b)\<rparr>)"
      by (simp_all add: assms)
    with True show ?thesis by (simp add: Let_def)
  next
    case False
    with Cons.IH show ?thesis by simp
  qed
qed

lemma revoke_loop_frame:
  assumes own: "\<And>g b. g \<in> set gs \<Longrightarrow> is_granted g b \<Longrightarrow> own b"
    and run: "revoke_loop p opt member gs errs w = (errs', w')"
  shows "filter (\<lambda>b. \<not> own b) (Bindings (remote w' pr)) = filter (\<lambda>b. \<not> own b) (Bindings (remote w pr))"
  using own run
proof (induction gs arbitrary: errs w)
  case Nil
  then show ?case by simp
next
  case (Cons g gs)
  have own': "\<And>g' b. g' \<in> set gs \<Longrightarrow> is_granted g' b \<Longrightarrow> own b"
    by (rule Cons.prems(1)) simp_all
  have owng: "\<And>b. is_granted g b \<Longrightarrow> own b"
    by (rule Cons.prems(1)) simp_all
  from Cons.prems(2) show ?case
  proof (cases rule: revoke_loop_step)
    case dry
    from Cons.IH [OF own' dry(2)] show ?thesis by (simp add: logger_fields)
  next
    case (get_failed err w2)
    from getIAMPolicy_world [OF get_failed(2)] have "remote w2 = remote w"
      by (simp add: logger_fields)
    with Cons.IH [OF own' get_failed(3)] show ?thesis by (simp add: logger_fields)
  next
    case (set_failed pol w2 err w3)
    from getIAMPolicy_world [OF set_failed(2)] setIAMPolicy_Some [OF set_failed(3)]
    have "remote w3 = remote w" by (simp add: logger_fields)
    with Cons.IH [OF own' set_failed(4)] show ?thesis by (simp add: logger_fields)
  next
    case (revoked pol w2 w3)
    from getIAMPolicy_world [OF revoked(2)] getIAMPolicy_Inr [OF revoked(2)]
    have w2: "remote w2 = remote w" and pol: "Bindings pol = Bindings (remote w (Project opt))"
      by (simp_all add: logger_fields)
    from setIAMPolicy_None [OF revoked(3)]
    have w3: "remote w3 = (remote w)(Project opt := pol\<lparr>Bindings := revoke_binding g member (Bindings pol)\<rparr>)"
      by (simp add: w2)
    have "filter (\<lambda>b. \<not> own b) (Bindings (remote w3 pr)) = filter (\<lambda>b. \<not> own b) (Bindings (remote w pr))"
      by (simp add: w3 pol revoke_binding_frame [of g own, OF owng])
    with Cons.IH [OF own' revoked(4)] show ?thesis by simp
  qed
qed

lemma is_own_granted: "g \<in> set (grantedRoles p) \<Longrightarrow> is_granted g b \<Longrightarrow> is_own p b"
  by (auto simp: is_own_def list_ex_iff)

text \<open>
  Claim C3. For every invocation of \<open>Revoke\<close> and every project, the bindings
  that are not the session's own (no recorded grant has both their role and their
  condition title) are, in the policy stored after the invocation, the ones
  stored before it: the same bindings, unchanged, in the same order. This holds
  whichever calls fail, and covers the temporary bindings of other sessions.
\<close>

theorem Revoke_keeps_foreign_bindings:
  "filter (\<lambda>b. \<not> is_own p b) (Bindings (remote (snd (Revoke p opts w)) pr))
     = filter (\<lambda>b. \<not> is_own p b) (Bindings (remote w pr))"
proof (cases opts)
  case OtherOptions
  then show ?thesis by (simp add: Revoke_def)
next
  case (GCP gcpOpts)
  show ?thesis
  proof (cases "grantedRoles p = []")
    case True
    with GCP show ?thesis by (simp add: Revoke_def logger_fields)
  next
    case False
    obtain errs' w' where loop:
      "revoke_loop p gcpOpts (formatMember (User gcpOpts)) (grantedRoles p) [] w = (errs', w')"
      by (cases "revoke_loop p gcpOpts (formatMember (User gcpOpts)) (grantedRoles p) [] w")
    have "filter (\<lambda>b. \<not> is_own p b) (Bindings (remote w' pr))
        = filter (\<lambda>b. \<not> is_own p b) (Bindings (remote w pr))"
      by (rule revoke_loop_frame [OF _ loop]) (rule is_own_granted)
    with GCP False loop show ?thesis by (simp add: Revoke_def logger_fields)
  qed
qed

lemmas revoke_defs = Revoke_def getIAMPolicy_def setIAMPolicy_def logger_def formatMember_def
  is_granted_def is_own_def gcpBindingTitlePrefix_def policyVersion_def Let_def

text \<open>
  The session granted \<open>roles/viewer\<close> under the ID ending in \<open>_1\<close>; the
  binding of another session (ID ending in \<open>_2\<close>) and the unconditional
  binding stay.
\<close>

theorem Revoke_keeps_foreign_bindings_witness:
  "let w = sample_world [marked ''roles/viewer'' ''_1'' [''user:a''],
                         marked ''roles/viewer'' ''_2'' [''user:a''],
                         unconditional ''roles/owner'' [''user:a'']] (\<lambda>_. None) int;
       w' = snd (Revoke sample_session (GCP (sample_options [] ''a'')) w)
   in Bindings (remote w' ''p'')
        = [marked ''roles/viewer'' ''_2'' [''user:a''], unconditional ''roles/owner'' [''user:a'']]
      \<and> filter (\<lambda>b. \<not> is_own sample_session b) (Bindings (remote w' ''p''))
        = [marked ''roles/viewer'' ''_2'' [''user:a''], unconditional ''roles/owner'' [''user:a'']]"
proof -
  let ?w = "sample_world [marked ''roles/viewer'' ''_1'' [''user:a''],
                         marked ''roles/viewer'' ''_2'' [''user:a''],
                         unconditional ''roles/owner'' [''user:a'']] (\<lambda>_. None) int"
  let ?w' = "snd (Revoke sample_session (GCP (sample_options [] ''a'')) ?w)"
  have a: "Bindings (remote ?w' ''p'')
        = [marked ''roles/viewer'' ''_2'' [''user:a''], unconditional ''roles/owner'' [''user:a'']]"
    by (simp add: sample_defs revoke_defs)
  have b: "filter (\<lambda>b. \<not> is_own sample_session b) (Bindings (remote ?w ''p''))
        = [marked ''roles/viewer'' ''_2'' [''user:a''], unconditional ''roles/owner'' [''user:a'']]"
    by (simp add: sample_defs revoke_defs)
  from Revoke_keeps_foreign_bindings [of sample_session "GCP (sample_options [] ''a'')" ?w "''p''"] a b
  show ?thesis by (simp add: Let_def)
qed

subsection \<open>Clean and List\<close>

lemma report_bindings_fields:
  "remote (report_bindings p ts w) = remote w"
  "api_calls (report_bindings p ts w) = api_calls w"
  "api_fault (report_bindings p ts w) = api_fault w"
  by (induction ts arbitrary: w) (simp_all add: logger_fields)

lemma report_bindings_logs_dry:
  "dryRun p \<Longrightarrow> logs (report_bindings p ts w) = logs w
     @ map (\<lambda>t. (Info, DryRunWouldRemoveBinding (tb_Role t) (tb_Member t) (tb_BindingID t))) ts"
  by (induction ts arbitrary: w) (simp_all add: logger_fields)

lemma remove_loop_fields:
  "remove_loop i tbs bs w = (x, w') \<Longrightarrow>
     remote w' = remote w \<and> api_calls w' = api_calls w \<and> api_fault w' = api_fault w"
  by (induction i arbitrary: bs w) (auto simp: Let_def logger_fields split: option.splits)

text \<open>The bindings the removal loop ends with do not depend on the world.\<close>

lemma remove_loop_entries:
  "i \<le> length tbs \<Longrightarrow> fst (remove_loop i tbs bs w) = remove_entries (rev (take i tbs)) bs"
proof (induction i arbitrary: bs w)
  case 0
  show ?case by simp
next
  case (Suc i)
  then have "take (Suc i) tbs = take i tbs @ [tbs ! i]"
    by (simp add: take_Suc_conv_app_nth)
  with Suc show ?case
    by (simp add: Let_def split: option.splits)
qed

text \<open>What \<open>CleanTemporaryBindings\<close> does, by the branch it takes.\<close>

lemma Clean_cases:
  assumes "CleanTemporaryBindings p opts w = (r, w')"
  obtains
    (other) "opts = OtherOptions" "r = Error InvalidOptionsType" "w' = w"
  | (fetch_failed) opt err where "opts = GCP opt" "r = Error (FetchIAMPolicyFailed err)"
      "api_fault w (length (api_calls w)) \<noteq> None"
      "w' = w\<lparr>api_calls := api_calls w @ [GetIamPolicyCall (Project opt)]\<rparr>"
  | (nothing) opt where "opts = GCP opt" "r = OK"
      "api_fault w (length (api_calls w)) = None"
      "collect_bindings opt 0 (Bindings (remote w (Project opt))) = []"
      "w' = logger Info NoTemporaryBindingsFound
              (w\<lparr>api_calls := api_calls w @ [GetIamPolicyCall (Project opt)]\<rparr>)"
  | (dry) opt where "opts = GCP opt" "r = OK" "dryRun p"
      "api_fault w (length (api_calls w)) = None"
      "collect_bindings opt 0 (Bindings (remote w (Project opt))) \<noteq> []"
      "w' = report_bindings p (collect_bindings opt 0 (Bindings (remote w (Project opt))))
              (w\<lparr>api_calls := api_calls w @ [GetIamPolicyCall (Project opt)]\<rparr>)"
  | (panicked) opt where "opts = GCP opt" "r = Panic" "\<not> dryRun p"
      "collect_bindings opt 0 (Bindings (remote w (Project opt))) \<noteq> []"
      "remote w' = remote w" "api_calls w' = api_calls w @ [GetIamPolicyCall (Project opt)]"
  | (write_failed) opt err bs' where "opts = GCP opt" "r = Error (UpdateIAMPolicyFailed err)"
      "\<not> dryRun p" "collect_bindings opt 0 (Bindings (remote w (Project opt))) \<noteq> []"
      "remote w' = remote w"
      "api_calls w' = api_calls w @ [GetIamPolicyCall (Project opt),
         SetIamPolicyCall (Project opt) \<lparr>Bindings = bs', Version = policyVersion\<rparr>]"
  | (cleaned) opt bs' where "opts = GCP opt" "r = OK" "\<not> dryRun p"
      "api_fault w (length (api_calls w)) = None"
      "collect_bindings opt 0 (Bindings (remote w (Project opt))) \<noteq> []"
      "remove_entries (rev (collect_bindings opt 0 (Bindings (remote w (Project opt)))))
         (Bindings (remote w (Project opt))) = Some bs'"
      "remote w' = (remote w)(Project opt := \<lparr>Bindings = bs', Version = policyVersion\<rparr>)"
      "api_calls w' = api_calls w @ [GetIamPolicyCall (Project opt),
         SetIamPolicyCall (Project opt) \<lparr>Bindings = bs', Version = policyVersion\<rparr>]"
      "api_fault w' = api_fault w"
proof (cases opts)
  case OtherOptions
  with assms show ?thesis
    by - (rule other, auto simp: CleanTemporaryBindings_def)
next
  case (GCP opt)
  let ?w0 = "w\<lparr>api_calls := api_calls w @ [GetIamPolicyCall (Project opt)]\<rparr>"
  let ?bs = "Bindings (remote w (Project opt))"
  let ?tbs = "collect_bindings opt 0 ?bs"
  show ?thesis
  proof (cases "api_fault w (length (api_calls w))")
    case (Some e)
    with assms GCP show ?thesis
      by - (rule fetch_failed [of opt "GetIAMPolicyFailed e"],
          auto simp: CleanTemporaryBindings_def getIAMPolicy_def Let_def)
  next
    case None
    note ok = None
    note get = getIAMPolicy_ok [OF None, of "Project opt"]
    show ?thesis
    proof (cases "?tbs = []")
      case True
      with assms GCP ok show ?thesis
        by - (rule nothing [of opt], auto simp: CleanTemporaryBindings_def get Let_def)
    next
      case False
      note tbs = False
      show ?thesis
      proof (cases "dryRun p")
        case True
        with assms GCP ok tbs show ?thesis
          by - (rule dry [of opt], auto simp: CleanTemporaryBindings_def get Let_def)
      next
        case False
        obtain x w3 where loop: "remove_loop (length ?tbs) ?tbs ?bs (report_bindings p ?tbs ?w0) = (x, w3)"
          by (cases "remove_loop (length ?tbs) ?tbs ?bs (report_bindings p ?tbs ?w0)")
        from remove_loop_entries [of "length ?tbs" ?tbs ?bs "report_bindings p ?tbs ?w0"] loop
        have x: "remove_entries (rev ?tbs) ?bs = x" by simp
        from remove_loop_fields [OF loop]
        have w3: "remote w3 = remote w" "api_calls w3 = api_calls w @ [GetIamPolicyCall (Project opt)]"
          "api_fault w3 = api_fault w"
          by (simp_all add: report_bindings_fields)
        show ?thesis
        proof (cases x)
          case None
          with assms GCP ok tbs False loop w3 show ?thesis
            by - (rule panicked [of opt], auto simp: CleanTemporaryBindings_def get Let_def)
        next
          case (Some bs')
          let ?pol = "\<lparr>Bindings = bs', Version = policyVersion\<rparr>"
          have pol: "(remote w (Project opt))\<lparr>Version := policyVersion, Bindings := bs'\<rparr> = ?pol"
            by simp
          obtain y w4 where set: "setIAMPolicy (Project opt) ?pol w3 = (y, w4)"
            by (cases "setIAMPolicy (Project opt) ?pol w3")
          from assms GCP ok tbs False loop Some set
          have res: "(r, w') = (case y of Some err \<Rightarrow> (Error (UpdateIAMPolicyFailed err), w4)
                       | None \<Rightarrow> (OK, logger Info (CleanedUp (length ?tbs)) w4))"
            by (simp add: CleanTemporaryBindings_def get Let_def pol)
          show ?thesis
          proof (cases y)
            case None
            from setIAMPolicy_None [OF set [unfolded None]] w3
            have w4: "remote w4 = (remote w)(Project opt := ?pol)"
              "api_calls w4 = api_calls w @ [GetIamPolicyCall (Project opt), SetIamPolicyCall (Project opt) ?pol]"
              "api_fault w4 = api_fault w"
              by simp_all
            from res None have "r = OK" "w' = logger Info (CleanedUp (length ?tbs)) w4" by simp_all
            with GCP False ok tbs x Some w4 show ?thesis
              by - (rule cleaned [of opt bs'], simp_all add: logger_fields)
          next
            case (Some err)
            from setIAMPolicy_Some [OF set [unfolded Some]] w3
            have w4: "remote w4 = remote w"
              "api_calls w4 = api_calls w @ [GetIamPolicyCall (Project opt), SetIamPolicyCall (Project opt) ?pol]"
              by simp_all
            from res Some have "r = Error (UpdateIAMPolicyFailed err)" "w' = w4" by simp_all
            with GCP False tbs w4 show ?thesis
              by - (rule write_failed [of opt err bs'], simp_all)
          qed
        qed
      qed
    qed
  qed
qed

lemma new_calls_self [simp]: "new_calls w w = []"
  by (simp add: new_calls_def)

lemma new_calls_logger [simp]: "new_calls w (logger l m w') = new_calls w w'"
  by (simp add: new_calls_def logger_fields)

lemma Grant_versioned: "versioned (new_calls w (snd (snd (snd (Grant p opts w)))))"
proof (cases opts)
  case OtherOptions
  then show ?thesis by (simp add: Grant_def versioned_simps)
next
  case (GCP opt)
  show ?thesis
  proof (cases "User opt = [] \<and> (\<exists>e. getCurrentUser w = Inl e)")
    case True
    with GCP show ?thesis by (auto simp: Grant_def versioned_simps)
  next
    case False
    then have user: "User opt = [] \<Longrightarrow> \<exists>u. getCurrentUser w = Inr u"
      by (cases "getCurrentUser w") auto
    obtain r p' opts' w' where run: "Grant p (GCP opt) w = (r, p', opts', w')"
      by (metis prod_cases4)
    obtain cs gs es where "new_calls w w' = cs" "grantedRoles p' = grantedRoles p @ gs"
      "dryRun p' = dryRun p" "versioned cs"
      "length gs = accepted_writes (api_fault w) (length (api_calls w)) cs"
      "\<not> dryRun p \<longrightarrow> length (get_policy_calls cs) = length (Roles opt)"
      "\<not> dryRun p \<longrightarrow> length gs + length es = length (Roles opt)"
      "r = (if es \<noteq> [] \<and> grantedRoles p' = [] then Error (GrantAnyRolesFailed es) else OK)"
      "es \<noteq> [] \<and> grantedRoles p' \<noteq> [] \<longrightarrow> (\<exists>ls. logs w' = ls @ [(Warn, FailedToGrantSomeRoles es)])"
      by (rule Grant_outcome [OF user run])
    with GCP run show ?thesis by simp
  qed
qed

lemma Revoke_versioned: "versioned (new_calls w (snd (Revoke p opts w)))"
proof (cases opts)
  case OtherOptions
  then show ?thesis by (simp add: Revoke_def versioned_simps)
next
  case (GCP opt)
  obtain errs' w' where loop:
    "revoke_loop p opt (formatMember (User opt)) (grantedRoles p) [] w = (errs', w')"
    by (cases "revoke_loop p opt (formatMember (User opt)) (grantedRoles p) [] w")
  from revoke_loop_trace [OF loop] obtain cs where "api_calls w' = api_calls w @ cs" "versioned cs"
    by blast
  then have "versioned (new_calls w w')" by (simp add: new_calls_append)
  with GCP loop show ?thesis by (simp add: Revoke_def versioned_simps)
qed

lemma Clean_versioned: "versioned (new_calls w (snd (CleanTemporaryBindings p opts w)))"
proof -
  obtain r w' where run: "CleanTemporaryBindings p opts w = (r, w')"
    by (cases "CleanTemporaryBindings p opts w")
  from run have "versioned (new_calls w w')"
    by (cases rule: Clean_cases)
      (simp_all add: new_calls_def versioned_simps logger_fields report_bindings_fields)
  with run show ?thesis by simp
qed

text \<open>
  Claim C8. Every fetch that succeeds returns a policy with the version that
  enables conditions (3), and every policy that \<open>Grant\<close>, \<open>Revoke\<close> or
  \<open>CleanTemporaryBindings\<close> passes to a set-policy call carries that version.
\<close>

theorem writes_carry_policy_version:
  "(getIAMPolicy pr w = (Inr pol, w1) \<longrightarrow> Version pol = policyVersion)
   \<and> versioned (new_calls w (snd (snd (snd (Grant p opts w)))))
   \<and> versioned (new_calls w (snd (Revoke p opts w)))
   \<and> versioned (new_calls w (snd (CleanTemporaryBindings p opts w)))"
proof -
  have "Version pol = policyVersion" if "getIAMPolicy pr w = (Inr pol, w1)"
    using getIAMPolicy_Inr [OF that] by simp
  with Grant_versioned Revoke_versioned Clean_versioned show ?thesis by blast
qed

lemmas clean_defs = CleanTemporaryBindings_def getIAMPolicy_def setIAMPolicy_def logger_def
  member_matches_def formatMember_def gcpBindingTitlePrefix_def remove_member_at_def
  policyVersion_def Let_def

text \<open>One write by each of the three operations, each with version 3.\<close>

theorem writes_carry_policy_version_witness:
  "let w = sample_world [marked ''roles/viewer'' ''_1'' [''user:a'']] (\<lambda>_. None) int;
       opts = GCP (sample_options [''viewer''] ''a'')
   in fst (getIAMPolicy ''p'' w) = Inr \<lparr>Bindings = [marked ''roles/viewer'' ''_1'' [''user:a'']], Version = 3\<rparr>
      \<and> map (\<lambda>(pr, pol). Version pol)
           (set_policy_calls (new_calls w (snd (snd (snd (Grant (NewGCPProvider False) opts w)))))) = [3]
      \<and> map (\<lambda>(pr, pol). Version pol)
           (set_policy_calls (new_calls w (snd (Revoke sample_session opts w)))) = [3]
      \<and> map (\<lambda>(pr, pol). Version pol)
           (set_policy_calls (new_calls w (snd (CleanTemporaryBindings (NewGCPProvider False) opts w)))) = [3]
      \<and> versioned (new_calls w (snd (snd (snd (Grant (NewGCPProvider False) opts w)))))
      \<and> versioned (new_calls w (snd (Revoke sample_session opts w)))
      \<and> versioned (new_calls w (snd (CleanTemporaryBindings (NewGCPProvider False) opts w)))"
proof -
  let ?w = "sample_world [marked ''roles/viewer'' ''_1'' [''user:a'']] (\<lambda>_. None) int"
  let ?opts = "GCP (sample_options [''viewer''] ''a'')"
  have a: "fst (getIAMPolicy ''p'' ?w) = Inr \<lparr>Bindings = [marked ''roles/viewer'' ''_1'' [''user:a'']], Version = 3\<rparr>"
    by (simp add: sample_defs run_defs)
  have b: "map (\<lambda>(pr, pol). Version pol)
           (set_policy_calls (new_calls ?w (snd (snd (snd (Grant (NewGCPProvider False) ?opts ?w)))))) = [3]"
    by (simp add: sample_defs run_defs new_calls_def)
  have c: "map (\<lambda>(pr, pol). Version pol)
           (set_policy_calls (new_calls ?w (snd (Revoke sample_session ?opts ?w)))) = [3]"
    by (simp add: sample_defs revoke_defs new_calls_def)
  have d: "map (\<lambda>(pr, pol). Version pol)
           (set_policy_calls (new_calls ?w (snd (CleanTemporaryBindings (NewGCPProvider False) ?opts ?w)))) = [3]"
    by (simp add: sample_defs clean_defs new_calls_def)
  from writes_carry_policy_version [of "''p''" ?w _ _ "NewGCPProvider False" ?opts]
  have e: "versioned (new_calls ?w (snd (snd (snd (Grant (NewGCPProvider False) ?opts ?w)))))"
    and g: "versioned (new_calls ?w (snd (CleanTemporaryBindings (NewGCPProvider False) ?opts ?w)))"
    by simp_all
  from writes_carry_policy_version [of "''p''" ?w _ _ sample_session ?opts]
  have f: "versioned (new_calls ?w (snd (Revoke sample_session ?opts ?w)))"
    by simp
  from a b c d e f g show ?thesis by (simp add: Let_def)
qed

text \<open>
  Claim C6. In dry-run mode \<open>CleanTemporaryBindings\<close> leaves the stored
  policies as they are and makes no set-policy call; when the fetch succeeds it
  returns \<open>nil\<close> and its log is one "would remove" entry for every match (or the
  entry saying that there is none); and a fetch made afterwards returns the
  policy that was stored before.
\<close>

theorem Clean_dry_run_reports_only:
  assumes dry: "dryRun p"
    and run: "CleanTemporaryBindings p opts w = (r, w')"
  shows "remote w' = remote w \<and> set_policy_calls (new_calls w w') = []
    \<and> (\<forall>opt. opts = GCP opt \<and> api_fault w (length (api_calls w)) = None \<longrightarrow>
         r = OK \<and> logs w' = logs w @
           (let tbs = collect_bindings opt 0 (Bindings (remote w (Project opt)))
            in if tbs = [] then [(Info, NoTemporaryBindingsFound)]
               else map (\<lambda>t. (Info, DryRunWouldRemoveBinding (tb_Role t) (tb_Member t) (tb_BindingID t))) tbs))
    \<and> (\<forall>pr. api_fault w' (length (api_calls w')) = None \<longrightarrow>
         fst (getIAMPolicy pr w') = Inr ((remote w pr)\<lparr>Version := policyVersion\<rparr>))"
proof -
  from run have a: "remote w' = remote w \<and> set_policy_calls (new_calls w w') = []
    \<and> (\<forall>opt. opts = GCP opt \<and> api_fault w (length (api_calls w)) = None \<longrightarrow>
         r = OK \<and> logs w' = logs w @
           (let tbs = collect_bindings opt 0 (Bindings (remote w (Project opt)))
            in if tbs = [] then [(Info, NoTemporaryBindingsFound)]
               else map (\<lambda>t. (Info, DryRunWouldRemoveBinding (tb_Role t) (tb_Member t) (tb_BindingID t))) tbs))"
    using dry
    by (cases rule: Clean_cases)
      (simp_all add: new_calls_def logger_fields report_bindings_fields report_bindings_logs_dry)
  then have "remote w' = remote w" by simp
  then have "fst (getIAMPolicy pr w') = Inr ((remote w pr)\<lparr>Version := policyVersion\<rparr>)"
    if "api_fault w' (length (api_calls w')) = None" for pr
    using getIAMPolicy_ok [OF that, of pr] by simp
  with a show ?thesis by blast
qed

text \<open>A dry run over a policy with one temporary binding.\<close>

theorem Clean_dry_run_reports_only_witness:
  "let p = NewGCPProvider True;
       w = sample_world [marked ''roles/viewer'' ''_1'' [''user:a'']] (\<lambda>_. None) int;
       C = CleanTemporaryBindings p (GCP (sample_options [] [])) w
   in dryRun p \<and> fst C = OK \<and> remote (snd C) = remote w
      \<and> set_policy_calls (new_calls w (snd C)) = []
      \<and> api_calls (snd C) = [GetIamPolicyCall ''p'']
      \<and> logs (snd C) = [(Info, DryRunWouldRemoveBinding ''roles/viewer'' ''user:a'' ''gta_temporary_access_1'')]"
proof -
  let ?p = "NewGCPProvider True"
  let ?w = "sample_world [marked ''roles/viewer'' ''_1'' [''user:a'']] (\<lambda>_. None) int"
  let ?C = "CleanTemporaryBindings ?p (GCP (sample_options [] [])) ?w"
  have d: "dryRun ?p" by (simp add: sample_defs)
  have e: "fst ?C = OK" "api_calls (snd ?C) = [GetIamPolicyCall ''p'']"
    "logs (snd ?C) = [(Info, DryRunWouldRemoveBinding ''roles/viewer'' ''user:a'' ''gta_temporary_access_1'')]"
    by (simp_all add: sample_defs clean_defs)
  from Clean_dry_run_reports_only [of ?p "GCP (sample_options [] [])" ?w "fst ?C" "snd ?C"] d
  have "remote (snd ?C) = remote ?w \<and> set_policy_calls (new_calls ?w (snd ?C)) = []"
    by simp
  with d e show ?thesis by (simp add: Let_def)
qed

subsection \<open>Removing a member from a binding\<close>

lemma revoke_binding_first:
  assumes "list_all (\<lambda>x. \<not> is_granted g x) pre" and "is_granted g b"
  shows "revoke_binding g member (pre @ b # post)
    = (if filter (\<lambda>m. m \<noteq> member) (Members b) = [] then pre @ post
       else pre @ b\<lparr>Members := filter (\<lambda>m. m \<noteq> member) (Members b)\<rparr> # post)"
  using assms by (induction pre) (simp_all add: Let_def)

lemma remove_member_at_split:
  "remove_member_at (length pre) member (pre @ b # post)
    = Some (if filter (\<lambda>m. m \<noteq> member) (Members b) = [] then pre @ post
            else pre @ b\<lparr>Members := filter (\<lambda>m. m \<noteq> member) (Members b)\<rparr> # post)"
  by (simp add: remove_member_at_def Let_def)

subsection \<open>Members that are not users\<close>

lemma list_members_facts:
  "list_members opt b c ms found w = (found', w') \<Longrightarrow>
     \<exists>ls. logs w' = logs w @ ls \<and> list_all reports_user ls
       \<and> (found' \<longleftrightarrow> found \<or> ls \<noteq> [])
       \<and> (list_all (\<lambda>m. \<not> prefix ''user:'' m) ms \<longrightarrow> ls = [])"
proof (induction ms arbitrary: found w)
  case Nil
  then show ?case by simp
next
  case (Cons m ms)
  show ?case
  proof (cases "member_matches opt m")
    case True
    with Cons.prems have "list_members opt b c ms True
        (logger Info (FoundTemporaryBinding (Role b) m (expires_of c) (Title c)) w) = (found', w')"
      by simp
    from Cons.IH [OF this] obtain ls where
      "logs w' = (logs w @ [(Info, FoundTemporaryBinding (Role b) m (expires_of c) (Title c))]) @ ls"
      "list_all reports_user ls" "found' \<longleftrightarrow> True \<or> ls \<noteq> []"
      by (auto simp: logger_fields)
    with True show ?thesis
      by (intro exI [of _ "(Info, FoundTemporaryBinding (Role b) m (expires_of c) (Title c)) # ls"])
        (simp add: member_matches_def)
  next
    case False
    with Cons.prems have "list_members opt b c ms found w = (found', w')" by simp
    from Cons.IH [OF this] show ?thesis by auto
  qed
qed

lemma list_bindings_facts:
  "list_bindings opt bs found w = (found', w') \<Longrightarrow>
     \<exists>ls. logs w' = logs w @ ls \<and> list_all reports_user ls
       \<and> (found' \<longleftrightarrow> found \<or> ls \<noteq> [])
       \<and> (list_all (\<lambda>b. is_temporary b \<longrightarrow> list_all (\<lambda>m. \<not> prefix ''user:'' m) (Members b)) bs \<longrightarrow> ls = [])"
proof (induction bs arbitrary: found w)
  case Nil
  then show ?case by simp
next
  case (Cons b bs)
  show ?case
  proof (cases "is_temporary b")
    case False
    with Cons.prems have "list_bindings opt bs found w = (found', w')"
      by (auto simp: is_temporary_def split: option.splits)
    from Cons.IH [OF this] False show ?thesis by auto
  next
    case True
    then obtain c where c: "Condition b = Some c" "prefix gcpBindingTitlePrefix (Title c)"
      by (auto simp: is_temporary_def split: option.splits)
    obtain f1 w1 where m: "list_members opt b c (Members b) found w = (f1, w1)"
      by (cases "list_members opt b c (Members b) found w")
    with Cons.prems c have rest: "list_bindings opt bs f1 w1 = (found', w')" by simp
    from list_members_facts [OF m] obtain ls1 where l1:
      "logs w1 = logs w @ ls1" "list_all reports_user ls1" "f1 \<longleftrightarrow> found \<or> ls1 \<noteq> []"
      "list_all (\<lambda>m. \<not> prefix ''user:'' m) (Members b) \<longrightarrow> ls1 = []"
      by blast
    from Cons.IH [OF rest] obtain ls2 where l2:
      "logs w' = logs w1 @ ls2" "list_all reports_user ls2" "found' \<longleftrightarrow> f1 \<or> ls2 \<noteq> []"
      "list_all (\<lambda>b. is_temporary b \<longrightarrow> list_all (\<lambda>m. \<not> prefix ''user:'' m) (Members b)) bs \<longrightarrow> ls2 = []"
      by blast
    from l1 l2 True show ?thesis
      by (intro exI [of _ "ls1 @ ls2"]) auto
  qed
qed

lemma List_reports:
  assumes "ListTemporaryBindings p opts w = (r, w')"
  shows "list_all reports_user (new_logs w w')"
    and "opts = GCP opt \<Longrightarrow> api_fault w (length (api_calls w)) = None \<Longrightarrow>
      list_all (\<lambda>b. is_temporary b \<longrightarrow> list_all (\<lambda>m. \<not> prefix ''user:'' m) (Members b))
        (Bindings (remote w (Project opt))) \<Longrightarrow>
      r = OK \<and> new_logs w w' = [(Info, NoTemporaryBindingsFound)]"
proof -
  show "list_all reports_user (new_logs w w')"
  proof (cases opts)
    case OtherOptions
    with assms show ?thesis by (simp add: ListTemporaryBindings_def new_logs_def)
  next
    case (GCP gopt)
    obtain x w1 where g: "getIAMPolicy (Project gopt) w = (x, w1)" by (cases "getIAMPolicy (Project gopt) w")
    from getIAMPolicy_world [OF g] have w1: "logs w1 = logs w" by simp
    show ?thesis
    proof (cases x)
      case (Inl e)
      with assms GCP g w1 show ?thesis by (auto simp: ListTemporaryBindings_def new_logs_def)
    next
      case (Inr pol)
      obtain f w2 where l: "list_bindings gopt (Bindings pol) False w1 = (f, w2)"
        by (cases "list_bindings gopt (Bindings pol) False w1")
      from list_bindings_facts [OF l] obtain ls where
        "logs w2 = logs w @ ls" "list_all reports_user ls" by (auto simp: w1)
      with assms GCP g Inr l show ?thesis
        by (auto simp: ListTemporaryBindings_def new_logs_def logger_fields split: if_splits)
    qed
  qed
  show "r = OK \<and> new_logs w w' = [(Info, NoTemporaryBindingsFound)]"
    if oo: "opts = GCP opt" and ok: "api_fault w (length (api_calls w)) = None"
      and nu: "list_all (\<lambda>b. is_temporary b \<longrightarrow> list_all (\<lambda>m. \<not> prefix ''user:'' m) (Members b))
        (Bindings (remote w (Project opt)))"
  proof -
    let ?w1 = "w\<lparr>api_calls := api_calls w @ [GetIamPolicyCall (Project opt)]\<rparr>"
    obtain f w2 where l: "list_bindings opt (Bindings (remote w (Project opt))) False ?w1 = (f, w2)"
      by (cases "list_bindings opt (Bindings (remote w (Project opt))) False ?w1")
    from list_bindings_facts [OF l] nu have "logs w2 = logs w" "\<not> f" by auto
    with assms oo l show ?thesis
      by (auto simp: ListTemporaryBindings_def getIAMPolicy_ok [OF ok] new_logs_def logger_fields)
  qed
qed

lemma collect_members_map:
  "collect_members opt b c i ms
     = map (\<lambda>m. \<lparr>tb_Role = Role b, tb_Member = m, tb_BindingID = Title c, tb_Index = i\<rparr>)
         (filter (member_matches opt) ms)"
  by (induction ms) simp_all

lemma collect_bindings_user:
  "list_all (\<lambda>t. prefix ''user:'' (tb_Member t)) (collect_bindings opt i bs)"
  by (induction bs arbitrary: i)
    (auto simp: collect_members_map list_all_iff member_matches_def split: option.splits)

lemma remove_member_at_keeps:
  assumes "remove_member_at idx m bs = Some bs'" and "prefix ''user:'' m"
    and "b \<in> set bs" and "no_user_member b"
  shows "b \<in> set bs'"
proof -
  from assms(1) have idx: "idx < length bs"
    by (auto simp: remove_member_at_def split: if_splits)
  let ?x = "bs ! idx"
  let ?kept = "filter (\<lambda>x. x \<noteq> m) (Members ?x)"
  have bs: "bs = take idx bs @ ?x # drop (Suc idx) bs"
    using idx by (rule id_take_nth_drop)
  from assms(2,4) have "m \<notin> set (Members b)" "Members b \<noteq> []"
    by (auto simp: no_user_member_def list_all_iff)
  then have keep: "filter (\<lambda>x. x \<noteq> m) (Members b) = Members b" "filter (\<lambda>x. x \<noteq> m) (Members b) \<noteq> []"
    by (auto simp: filter_id_conv filter_empty_conv neq_Nil_conv)
  from assms(3) bs have mem: "b \<in> set (take idx bs) \<or> b = ?x \<or> b \<in> set (drop (Suc idx) bs)"
    by (metis Un_iff set_ConsD set_append)
  show ?thesis
  proof (cases "?kept = []")
    case True
    with assms(1) idx have bs': "bs' = take idx bs @ drop (Suc idx) bs"
      by (simp add: remove_member_at_def Let_def)
    from True keep have "b \<noteq> ?x" by auto
    with mem show ?thesis by (auto simp: bs')
  next
    case False
    with assms(1) idx have "bs' = bs[idx := ?x\<lparr>Members := ?kept\<rparr>]"
      by (simp add: remove_member_at_def Let_def)
    then have bs': "bs' = take idx bs @ ?x\<lparr>Members := ?kept\<rparr> # drop (Suc idx) bs"
      using idx by (simp add: upd_conv_take_nth_drop)
    show ?thesis
    proof (cases "b = ?x")
      case True
      with keep have "?x\<lparr>Members := ?kept\<rparr> = b" by simp
      then show ?thesis by (simp add: bs')
    next
      case False
      with mem show ?thesis by (auto simp: bs')
    qed
  qed
qed

lemma remove_entries_keeps:
  "list_all (\<lambda>t. prefix ''user:'' (tb_Member t)) ts \<Longrightarrow> remove_entries ts bs = Some bs'
    \<Longrightarrow> b \<in> set bs \<Longrightarrow> no_user_member b \<Longrightarrow> b \<in> set bs'"
proof (induction ts arbitrary: bs)
  case Nil
  then show ?case by simp
next
  case (Cons t ts)
  from Cons.prems(2) obtain bs1 where
    s: "remove_member_at (tb_Index t) (tb_Member t) bs = Some bs1" and r: "remove_entries ts bs1 = Some bs'"
    by (auto split: option.splits)
  from Cons.prems(1) have u: "prefix ''user:'' (tb_Member t)"
    and us: "list_all (\<lambda>t. prefix ''user:'' (tb_Member t)) ts"
    by simp_all
  from remove_member_at_keeps [OF s u Cons.prems(3,4)] have "b \<in> set bs1" .
  from Cons.IH [OF us r this Cons.prems(4)] show ?case .
qed

lemma Clean_keeps_non_user:
  assumes run: "CleanTemporaryBindings p opts w = (r, w')"
    and b: "b \<in> set (Bindings (remote w pr))" "no_user_member b"
  shows "b \<in> set (Bindings (remote w' pr))"
  using run
proof (cases rule: Clean_cases)
  case (cleaned opt bs')
  have "list_all (\<lambda>t. prefix ''user:'' (tb_Member t))
      (rev (collect_bindings opt 0 (Bindings (remote w (Project opt)))))"
    using collect_bindings_user [of opt 0 "Bindings (remote w (Project opt))"]
    by (simp add: list_all_iff)
  from remove_entries_keeps [OF this cleaned(6) _ b(2)] b(1) cleaned(7)
  show ?thesis by (cases "pr = Project opt") simp_all
qed (use b in \<open>simp_all add: logger_fields report_bindings_fields\<close>)

text \<open>
  Claim C9. Every binding that \<open>ListTemporaryBindings\<close> reports is reported
  for a member with the prefix \<open>user:\<close>, and when no marked binding of the
  fetched policy has such a member the only entry is the one saying that no
  temporary binding was found; every entry that \<open>CleanTemporaryBindings\<close>
  collects names a member with that prefix; and a binding that has members, none
  of them with that prefix, is still in the stored policy after
  \<open>CleanTemporaryBindings\<close>, with or without a member filter.
\<close>

theorem only_user_members_considered:
  "(ListTemporaryBindings p opts w = (r1, w1) \<longrightarrow>
      list_all reports_user (new_logs w w1)
      \<and> (\<forall>opt. opts = GCP opt \<and> api_fault w (length (api_calls w)) = None
            \<and> list_all (\<lambda>b. is_temporary b \<longrightarrow> list_all (\<lambda>m. \<not> prefix ''user:'' m) (Members b))
                 (Bindings (remote w (Project opt)))
           \<longrightarrow> r1 = OK \<and> new_logs w w1 = [(Info, NoTemporaryBindingsFound)]))
   \<and> list_all (\<lambda>t. prefix ''user:'' (tb_Member t)) (collect_bindings gopt i bs)
   \<and> (CleanTemporaryBindings p opts w = (r2, w2) \<and> b \<in> set (Bindings (remote w pr)) \<and> no_user_member b
        \<longrightarrow> b \<in> set (Bindings (remote w2 pr)))"
  using List_reports [of p opts w r1 w1] collect_bindings_user [of gopt i bs]
    Clean_keeps_non_user [of p opts w r2 w2 b pr]
  by blast

lemmas list_defs = ListTemporaryBindings_def getIAMPolicy_def logger_def member_matches_def
  formatMember_def gcpBindingTitlePrefix_def policyVersion_def expires_of_def TrimPrefix_def Let_def

text \<open>A marked binding held by a service account only, and no member filter.\<close>

theorem only_user_members_considered_witness:
  "let b = marked ''roles/viewer'' ''_1'' [''serviceAccount:x''];
       w = sample_world [b] (\<lambda>_. None) int;
       opts = GCP (sample_options [] []);
       L = ListTemporaryBindings (NewGCPProvider False) opts w;
       C = CleanTemporaryBindings (NewGCPProvider False) opts w
   in is_temporary b \<and> no_user_member b
      \<and> fst L = OK \<and> new_logs w (snd L) = [(Info, NoTemporaryBindingsFound)]
      \<and> fst C = OK \<and> b \<in> set (Bindings (remote (snd C) ''p''))
      \<and> api_calls (snd C) = [GetIamPolicyCall ''p'']"
proof -
  let ?b = "marked ''roles/viewer'' ''_1'' [''serviceAccount:x'']"
  let ?w = "sample_world [?b] (\<lambda>_. None) int"
  let ?opts = "GCP (sample_options [] [])"
  let ?L = "ListTemporaryBindings (NewGCPProvider False) ?opts ?w"
  let ?C = "CleanTemporaryBindings (NewGCPProvider False) ?opts ?w"
  have h: "is_temporary ?b" "no_user_member ?b" "?b \<in> set (Bindings (remote ?w ''p''))"
    by (simp_all add: is_temporary_def no_user_member_def sample_defs gcpBindingTitlePrefix_def)
  have l: "fst ?L = OK" "new_logs ?w (snd ?L) = [(Info, NoTemporaryBindingsFound)]"
    by (simp_all add: sample_defs list_defs new_logs_def)
  have c: "fst ?C = OK" "api_calls (snd ?C) = [GetIamPolicyCall ''p'']"
    by (simp_all add: sample_defs clean_defs)
  from only_user_members_considered [of "NewGCPProvider False" ?opts ?w "fst ?L" "snd ?L"
      "sample_options [] []" 0 "[]" "fst ?C" "snd ?C" ?b "''p''"] h
  have "?b \<in> set (Bindings (remote (snd ?C) ''p''))"
    by simp
  with h l c show ?thesis by (simp add: Let_def)
qed

subsection \<open>What the removal loop leaves\<close>

lemma collect_bindings_index:
  "t \<in> set (collect_bindings opt i bs) \<Longrightarrow> i \<le> tb_Index t"
  by (induction bs arbitrary: i) (auto simp: collect_members_map split: option.splits if_splits dest: Suc_leD)

lemma collect_bindings_sorted:
  "sorted_wrt (\<lambda>s t. tb_Index s \<le> tb_Index t) (collect_bindings opt i bs)"
proof (induction bs arbitrary: i)
  case Nil
  show ?case by simp
next
  case (Cons b bs)
  have "sorted_wrt (\<lambda>s t. tb_Index s \<le> tb_Index t) (collect_members opt b c i ms)" for c ms
    by (simp add: collect_members_map sorted_wrt_map sorted_wrt_true)
  moreover have "tb_Index s \<le> tb_Index t"
    if "s \<in> set (collect_members opt b c i ms)" "t \<in> set (collect_bindings opt (Suc i) bs)" for s t c ms
    using that collect_bindings_index [of t opt "Suc i" bs] by (auto simp: collect_members_map)
  ultimately show ?case
    using Cons.IH [of "Suc i"] by (auto simp: sorted_wrt_append split: option.splits)
qed

lemma collect_bindings_covers:
  assumes "j < length bs" "m \<in> set (Members (bs ! j))" "is_temporary (bs ! j)" "member_matches opt m"
  shows "\<exists>t \<in> set (collect_bindings opt i bs). tb_Index t = i + j \<and> tb_Member t = m"
  using assms
proof (induction bs arbitrary: i j)
  case Nil
  then show ?case by simp
next
  case (Cons b bs)
  show ?case
  proof (cases j)
    case 0
    with Cons.prems show ?thesis
      by (force simp: is_temporary_def collect_members_map split: option.splits)
  next
    case (Suc k)
    with Cons.prems have "\<exists>t \<in> set (collect_bindings opt (Suc i) bs). tb_Index t = Suc i + k \<and> tb_Member t = m"
      by (intro Cons.IH) simp_all
    with Suc show ?thesis by (auto split: option.splits)
  qed
qed

lemma covered_collect: "covered opt (collect_bindings opt 0 bs) bs"
  unfolding covered_def using collect_bindings_covers [of _ bs _ opt 0] by auto

lemma covered_Nil_collect:
  "covered opt [] cur \<Longrightarrow> collect_bindings opt i cur = []"
proof (induction cur arbitrary: i)
  case Nil
  show ?case by simp
next
  case (Cons b cur)
  have "covered opt [] cur"
    using Cons.prems unfolding covered_def by (simp add: All_less_Suc2)
  then have rest: "collect_bindings opt (Suc i) cur = []" by (rule Cons.IH)
  have "filter (member_matches opt) (Members b) = []" if "is_temporary b"
    using Cons.prems that unfolding covered_def by (auto simp: filter_empty_conv)
  with rest show ?case
    by (auto simp: collect_members_map is_temporary_def split: option.splits)
qed

lemma is_temporary_Members [simp]: "is_temporary (b\<lparr>Members := ms\<rparr>) = is_temporary b"
  by (simp add: is_temporary_def)

lemma covered_step:
  assumes sorted: "sorted_wrt (\<lambda>s t. tb_Index s \<le> tb_Index t) (E @ [t])"
    and cov: "covered opt (E @ [t]) cur"
    and step: "remove_member_at (tb_Index t) (tb_Member t) cur = Some cur'"
  shows "covered opt E cur'"
  unfolding covered_def
proof (intro allI impI ballI)
  fix j m
  assume j: "j < length cur'" and m: "m \<in> set (Members (cur' ! j))"
    and tm: "is_temporary (cur' ! j) \<and> member_matches opt m"
  let ?i = "tb_Index t"
  let ?x = "cur ! ?i"
  let ?kept = "filter (\<lambda>x. x \<noteq> tb_Member t) (Members ?x)"
  from step have i: "?i < length cur"
    by (auto simp: remove_member_at_def split: if_splits)
  from sorted have le: "\<And>s. s \<in> set E \<Longrightarrow> tb_Index s \<le> ?i"
    by (simp add: sorted_wrt_append)
  have old: "\<exists>s \<in> set E. tb_Index s = k \<and> tb_Member s = m"
    if "k < length cur" "m \<in> set (Members (cur ! k))" "is_temporary (cur ! k)"
      "k \<noteq> ?i \<or> m \<noteq> tb_Member t" for k
  proof -
    from cov that(1-3) tm obtain s where "s \<in> set (E @ [t])" "tb_Index s = k" "tb_Member s = m"
      unfolding covered_def by blast
    with that(4) show ?thesis by auto
  qed
  show "\<exists>s \<in> set E. tb_Index s = j \<and> tb_Member s = m"
  proof (cases "?kept = []")
    case True
    with step i have cur': "cur' = take ?i cur @ drop (Suc ?i) cur"
      by (simp add: remove_member_at_def Let_def)
    show ?thesis
    proof (cases "j < ?i")
      case True
      with i have "cur' ! j = cur ! j" by (simp add: cur' nth_append)
      with old [of j] True i m tm show ?thesis by simp
    next
      case False
      with i j have "cur' ! j = cur ! Suc j" "Suc j < length cur"
        by (simp_all add: cur' nth_append min_def)
      with old [of "Suc j"] False m tm obtain s where "s \<in> set E" "tb_Index s = Suc j"
        by auto
      with le [of s] False show ?thesis by simp
    qed
  next
    case False
    with step i have cur': "cur' = cur[?i := ?x\<lparr>Members := ?kept\<rparr>]"
      by (simp add: remove_member_at_def Let_def)
    show ?thesis
    proof (cases "j = ?i")
      case True
      with i m tm have "m \<in> set (Members ?x)" "m \<noteq> tb_Member t" "is_temporary ?x"
        by (simp_all add: cur')
      with old [of ?i] i True show ?thesis by simp
    next
      case False
      with j have "cur' ! j = cur ! j" "j < length cur" by (simp_all add: cur')
      with old [of j] False m tm show ?thesis by simp
    qed
  qed
qed

lemma covered_loop:
  "sorted_wrt (\<lambda>s t. tb_Index s \<le> tb_Index t) E \<Longrightarrow> covered opt E cur
    \<Longrightarrow> remove_entries (rev E) cur = Some cur' \<Longrightarrow> covered opt [] cur'"
proof (induction E arbitrary: cur rule: rev_induct)
  case Nil
  then show ?case by simp
next
  case (snoc t E)
  from snoc.prems(3) obtain cur1 where
    s: "remove_member_at (tb_Index t) (tb_Member t) cur = Some cur1"
    and r: "remove_entries (rev E) cur1 = Some cur'"
    by (auto split: option.splits)
  from snoc.prems(1) have "sorted_wrt (\<lambda>s t. tb_Index s \<le> tb_Index t) E"
    by (simp add: sorted_wrt_append)
  from snoc.IH [OF this covered_step [OF snoc.prems(1,2) s] r] show ?case .
qed

lemma removal_leaves_no_match:
  "remove_entries (rev (collect_bindings opt 0 bs)) bs = Some bs' \<Longrightarrow> collect_bindings opt 0 bs' = []"
  by (rule covered_Nil_collect) (rule covered_loop [OF collect_bindings_sorted covered_collect])

text \<open>
  Claim C5, as the code has it. Outside dry-run mode, after a first
  \<open>CleanTemporaryBindings\<close> that returned \<open>nil\<close>, a second one with the same
  options on the world the first one left leaves the stored policies as they are
  and makes no set-policy call; when its fetch succeeds it finds no match: it
  returns \<open>nil\<close> and logs only that no temporary binding was found.
\<close>

theorem Clean_twice_is_noop:
  assumes wet: "\<not> dryRun p"
    and first: "CleanTemporaryBindings p opts w = (OK, w1)"
    and second: "CleanTemporaryBindings p opts w1 = (r2, w2)"
  shows "remote w2 = remote w1 \<and> set_policy_calls (new_calls w1 w2) = []
    \<and> (api_fault w1 (length (api_calls w1)) = None \<longrightarrow>
         r2 = OK \<and> new_logs w1 w2 = [(Info, NoTemporaryBindingsFound)])"
proof -
  from first wet obtain opt where opt: "opts = GCP opt"
    and none: "collect_bindings opt 0 (Bindings (remote w1 (Project opt))) = []"
  proof (cases rule: Clean_cases)
    case (nothing opt)
    then show ?thesis by (intro that [of opt]) (simp_all add: logger_fields)
  next
    case (cleaned opt bs')
    from removal_leaves_no_match [OF cleaned(6)] cleaned(1,7) show ?thesis
      by (intro that [of opt]) simp_all
  qed simp_all
  from second show ?thesis
  proof (cases rule: Clean_cases)
    case other
    with opt show ?thesis by simp
  next
    case (fetch_failed opt' err)
    then show ?thesis by (simp add: new_calls_def)
  next
    case (nothing opt')
    then show ?thesis by (simp add: new_calls_def new_logs_def logger_fields)
  next
    case (dry opt')
    with wet show ?thesis by simp
  next
    case (panicked opt')
    with opt none show ?thesis by simp
  next
    case (write_failed opt' err bs')
    with opt none show ?thesis by simp
  next
    case (cleaned opt' bs')
    with opt none show ?thesis by simp
  qed
qed

text \<open>
  The first run removes \<open>user:a\<close> from one marked binding and deletes the
  other; the second run finds nothing.
\<close>

theorem Clean_twice_is_noop_witness:
  "let p = NewGCPProvider False;
       opts = GCP (sample_options [] []);
       w = sample_world [marked ''roles/viewer'' ''_1'' [''user:a'', ''serviceAccount:x''],
                         unconditional ''roles/owner'' [''user:a''],
                         marked ''roles/editor'' ''_2'' [''user:a'', ''user:b'']] (\<lambda>_. None) int;
       w1 = snd (CleanTemporaryBindings p opts w);
       C2 = CleanTemporaryBindings p opts w1
   in \<not> dryRun p \<and> fst (CleanTemporaryBindings p opts w) = OK
      \<and> Bindings (remote w1 ''p'')
          = [marked ''roles/viewer'' ''_1'' [''serviceAccount:x''], unconditional ''roles/owner'' [''user:a'']]
      \<and> fst C2 = OK \<and> remote (snd C2) = remote w1
      \<and> set_policy_calls (new_calls w1 (snd C2)) = []
      \<and> new_logs w1 (snd C2) = [(Info, NoTemporaryBindingsFound)]"
proof -
  let ?p = "NewGCPProvider False"
  let ?opts = "GCP (sample_options [] [])"
  let ?w = "sample_world [marked ''roles/viewer'' ''_1'' [''user:a'', ''serviceAccount:x''],
                         unconditional ''roles/owner'' [''user:a''],
                         marked ''roles/editor'' ''_2'' [''user:a'', ''user:b'']] (\<lambda>_. None) int"
  let ?C1 = "CleanTemporaryBindings ?p ?opts ?w"
  let ?C2 = "CleanTemporaryBindings ?p ?opts (snd ?C1)"
  have d: "\<not> dryRun ?p" by (simp add: sample_defs)
  have f: "fst ?C1 = OK"
    "Bindings (remote (snd ?C1) ''p'')
       = [marked ''roles/viewer'' ''_1'' [''serviceAccount:x''], unconditional ''roles/owner'' [''user:a'']]"
    "api_fault (snd ?C1) (length (api_calls (snd ?C1))) = None"
    by (simp_all add: sample_defs clean_defs numeral_2_eq_2)
  have "?C1 = (OK, snd ?C1)" using f(1) by (metis prod.collapse)
  from Clean_twice_is_noop [OF d this, of "fst ?C2" "snd ?C2"] f(3)
  have "remote (snd ?C2) = remote (snd ?C1) \<and> set_policy_calls (new_calls (snd ?C1) (snd ?C2)) = []
    \<and> fst ?C2 = OK \<and> new_logs (snd ?C1) (snd ?C2) = [(Info, NoTemporaryBindingsFound)]"
    by simp
  with d f show ?thesis by (simp add: Let_def)
qed

text \<open>
  Claim C5 as stated fails when the first run did not return \<open>nil\<close>: the
  service rejects its write, the run returns the error and the stored policy
  keeps the match; the second run finds it, sends a policy and the binding is
  gone.
\<close>

theorem Clean_twice_after_rejected_write:
  "let p = NewGCPProvider False;
       opts = GCP (sample_options [] []);
       w = sample_world [marked ''roles/viewer'' ''_1'' [''user:a'']]
             (\<lambda>k. if k = 1 then Some ''unavailable'' else None) int;
       w1 = snd (CleanTemporaryBindings p opts w);
       C2 = CleanTemporaryBindings p opts w1
   in \<not> dryRun p
      \<and> fst (CleanTemporaryBindings p opts w) = Error (UpdateIAMPolicyFailed (SetIAMPolicyFailed ''unavailable''))
      \<and> Bindings (remote w1 ''p'') = [marked ''roles/viewer'' ''_1'' [''user:a'']]
      \<and> fst C2 = OK
      \<and> set_policy_calls (new_calls w1 (snd C2)) = [(''p'', \<lparr>Bindings = [], Version = 3\<rparr>)]
      \<and> Bindings (remote (snd C2) ''p'') = []"
  by (simp add: Let_def sample_defs clean_defs new_calls_def)

subsection \<open>The removal loop and the stable rebuild\<close>

lemma remove_entries_append:
  "remove_entries (xs @ ys) bs
     = (case remove_entries xs bs of None \<Rightarrow> None | Some bs' \<Rightarrow> remove_entries ys bs')"
  by (induction xs arbitrary: bs) (simp_all split: option.splits)

text \<open>
  The entries of one binding, taken one after the other at the binding's
  position: each takes one member away, and only the last one can leave the
  binding empty.
\<close>

lemma remove_entries_one_binding:
  assumes "distinct rs" and "set rs \<subseteq> set (Members b)"
  shows "remove_entries
      (map (\<lambda>m. \<lparr>tb_Role = r, tb_Member = m, tb_BindingID = t, tb_Index = length pre\<rparr>) rs)
      (pre @ b # post)
    = Some (pre @ (if rs \<noteq> [] \<and> filter (\<lambda>m. m \<notin> set rs) (Members b) = [] then []
                   else [b\<lparr>Members := filter (\<lambda>m. m \<notin> set rs) (Members b)\<rparr>]) @ post)"
  using assms
proof (induction rs arbitrary: b)
  case Nil
  show ?case by simp
next
  case (Cons x rs)
  let ?kept = "filter (\<lambda>m. m \<noteq> x) (Members b)"
  have ff: "filter (\<lambda>m. m \<notin> set rs) ?kept = filter (\<lambda>m. m \<notin> set (x # rs)) (Members b)"
    by (simp add: conj_commute)
  show ?case
  proof (cases "?kept = []")
    case True
    have "rs = []"
    proof (rule ccontr)
      assume "rs \<noteq> []"
      then obtain y where y: "y \<in> set rs" by (cases rs) auto
      with Cons.prems have "y \<in> set (Members b)" "y \<noteq> x" by auto
      then have "y \<in> set ?kept" by simp
      with True show False by simp
    qed
    with True show ?thesis
      by (simp add: remove_member_at_split)
  next
    case False
    from Cons.prems have d: "distinct rs" and sub: "set rs \<subseteq> set (Members (b\<lparr>Members := ?kept\<rparr>))"
      by auto
    have "rs = [] \<Longrightarrow> filter (\<lambda>m. m \<notin> set (x # rs)) (Members b) \<noteq> []"
      using False by simp
    with Cons.IH [OF d sub] False ff show ?thesis
      by (auto simp: remove_member_at_split)
  qed
qed

lemma rebuild_binding_plain: "\<not> is_temporary b \<Longrightarrow> rebuild_binding opt b = [b]"
  by (simp add: rebuild_binding_def is_match_def)

lemma rebuild_binding_marked:
  "is_temporary b \<Longrightarrow> rebuild_binding opt b
     = (if filter (member_matches opt) (Members b) \<noteq> []
           \<and> filter (\<lambda>m. \<not> member_matches opt m) (Members b) = [] then []
        else [b\<lparr>Members := filter (\<lambda>m. \<not> member_matches opt m) (Members b)\<rparr>])"
proof -
  assume "is_temporary b"
  then have "is_match opt b = member_matches opt"
    by (simp add: is_match_def fun_eq_iff)
  then show ?thesis
    by (simp add: rebuild_binding_def Let_def)
qed

lemma remove_entries_rebuild:
  "no_repeated_match opt bs \<Longrightarrow>
     remove_entries (rev (collect_bindings opt (length pre) bs)) (pre @ bs)
       = Some (pre @ stable_rebuild opt bs)"
proof (induction bs arbitrary: pre)
  case Nil
  show ?case by (simp add: stable_rebuild_def)
next
  case (Cons b bs)
  from Cons.prems have nr: "no_repeated_match opt bs"
    and db: "is_temporary b \<Longrightarrow> distinct (filter (member_matches opt) (Members b))"
    by (simp_all add: no_repeated_match_def)
  from Cons.IH [OF nr, of "pre @ [b]"]
  have rest: "remove_entries (rev (collect_bindings opt (Suc (length pre)) bs)) (pre @ b # bs)
      = Some (pre @ b # stable_rebuild opt bs)"
    by simp
  show ?case
  proof (cases "is_temporary b")
    case False
    then have "collect_bindings opt (length pre) (b # bs) = collect_bindings opt (Suc (length pre)) bs"
      by (auto simp: is_temporary_def split: option.splits)
    with rest False show ?thesis
      by (simp add: stable_rebuild_def rebuild_binding_plain)
  next
    case True
    then obtain c where c: "Condition b = Some c" "prefix gcpBindingTitlePrefix (Title c)"
      by (auto simp: is_temporary_def split: option.splits)
    let ?rs = "rev (filter (member_matches opt) (Members b))"
    have col: "rev (collect_bindings opt (length pre) (b # bs))
        = rev (collect_bindings opt (Suc (length pre)) bs)
          @ map (\<lambda>m. \<lparr>tb_Role = Role b, tb_Member = m, tb_BindingID = Title c, tb_Index = length pre\<rparr>) ?rs"
      using c by (simp add: collect_members_map rev_map)
    have "distinct ?rs" "set ?rs \<subseteq> set (Members b)"
      using db [OF True] by auto
    from remove_entries_one_binding [OF this, of "Role b" "Title c" pre "stable_rebuild opt bs"]
    have one: "remove_entries
        (map (\<lambda>m. \<lparr>tb_Role = Role b, tb_Member = m, tb_BindingID = Title c, tb_Index = length pre\<rparr>) ?rs)
        (pre @ b # stable_rebuild opt bs)
      = Some (pre @ (if ?rs \<noteq> [] \<and> filter (\<lambda>m. m \<notin> set ?rs) (Members b) = [] then []
                     else [b\<lparr>Members := filter (\<lambda>m. m \<notin> set ?rs) (Members b)\<rparr>])
               @ stable_rebuild opt bs)" .
    have f: "filter (\<lambda>m. m \<notin> set ?rs) (Members b) = filter (\<lambda>m. \<not> member_matches opt m) (Members b)"
      by (rule filter_cong) auto
    have "(if ?rs \<noteq> [] \<and> filter (\<lambda>m. m \<notin> set ?rs) (Members b) = [] then []
            else [b\<lparr>Members := filter (\<lambda>m. m \<notin> set ?rs) (Members b)\<rparr>]) = rebuild_binding opt b"
      unfolding f by (simp add: rebuild_binding_marked [OF True])
    with one have "remove_entries
        (map (\<lambda>m. \<lparr>tb_Role = Role b, tb_Member = m, tb_BindingID = Title c, tb_Index = length pre\<rparr>) ?rs)
        (pre @ b # stable_rebuild opt bs)
      = Some (pre @ stable_rebuild opt (b # bs))"
      by (simp add: stable_rebuild_def)
    with rest show ?thesis
      by (simp only: col remove_entries_append option.case)
  qed
qed

lemma distinct_members_no_repeated_match:
  "list_all (\<lambda>b. distinct (Members b)) bs \<Longrightarrow> no_repeated_match opt bs"
  by (simp add: no_repeated_match_def list_all_iff)

text \<open>
  Claim C4. The members of a binding are a set: a policy is a list of bindings
  none of which repeats a member. For every such policy and the entries
  \<open>CleanTemporaryBindings\<close> collects from it, under any member filter, the
  removal loop run from the last entry to the first does not panic and ends with
  the bindings of the stable rebuild: the matched members taken out, the bindings
  that lost all their members dropped, the others in their order.
\<close>

theorem reverse_removal_is_stable_rebuild:
  assumes "list_all (\<lambda>b. distinct (Members b)) bs"
  shows "fst (remove_loop (length (collect_bindings opt 0 bs)) (collect_bindings opt 0 bs) bs w)
    = Some (stable_rebuild opt bs)"
proof -
  from assms have nr: "no_repeated_match opt bs"
    by (rule distinct_members_no_repeated_match)
  have "fst (remove_loop (length (collect_bindings opt 0 bs)) (collect_bindings opt 0 bs) bs w)
      = remove_entries (rev (collect_bindings opt 0 bs)) bs"
    by (simp add: remove_loop_entries)
  also have "\<dots> = remove_entries (rev (collect_bindings opt (length ([] :: binding list)) bs)) ([] @ bs)"
    by simp
  also have "\<dots> = Some ([] @ stable_rebuild opt bs)"
    using nr by (rule remove_entries_rebuild)
  finally show ?thesis by simp
qed

lemmas rebuild_defs = stable_rebuild_def rebuild_binding_def is_match_def is_temporary_def
  member_matches_def formatMember_def gcpBindingTitlePrefix_def no_repeated_match_def

text \<open>Three entries over two marked bindings, one of which ends empty and is dropped.\<close>

theorem reverse_removal_is_stable_rebuild_witness:
  "let opt = sample_options [] [];
       bs = [marked ''roles/viewer'' ''_1'' [''user:a'', ''user:b''],
             unconditional ''roles/owner'' [''user:a''],
             marked ''roles/editor'' ''_2'' [''user:a'', ''serviceAccount:x'']];
       tbs = collect_bindings opt 0 bs
   in list_all (\<lambda>b. distinct (Members b)) bs \<and> length tbs = 3
      \<and> fst (remove_loop (length tbs) tbs bs (sample_world bs (\<lambda>_. None) int)) = Some (stable_rebuild opt bs)
      \<and> stable_rebuild opt bs
          = [unconditional ''roles/owner'' [''user:a''], marked ''roles/editor'' ''_2'' [''serviceAccount:x'']]"
proof -
  let ?opt = "sample_options [] []"
  let ?bs = "[marked ''roles/viewer'' ''_1'' [''user:a'', ''user:b''],
             unconditional ''roles/owner'' [''user:a''],
             marked ''roles/editor'' ''_2'' [''user:a'', ''serviceAccount:x'']]"
  have h: "list_all (\<lambda>b. distinct (Members b)) ?bs"
    by (simp add: sample_defs)
  have n: "length (collect_bindings ?opt 0 ?bs) = 3"
    by (simp add: sample_defs rebuild_defs)
  have s: "stable_rebuild ?opt ?bs
      = [unconditional ''roles/owner'' [''user:a''], marked ''roles/editor'' ''_2'' [''serviceAccount:x'']]"
    by (simp add: sample_defs rebuild_defs)
  from reverse_removal_is_stable_rebuild [OF h, of ?opt "sample_world ?bs (\<lambda>_. None) int"] h n s
  show ?thesis by (simp add: Let_def)
qed

text \<open>
  What the loop does with a list that is not a set. A marked binding lists
  \<open>user:a\<close> twice: the first entry taken deletes the binding; the second one,
  with the same index, then takes \<open>user:a\<close> out of the unconditional binding
  that moved to that index. When the marked binding is the last one, the second
  entry reads the slice at its length and the loop panics.
\<close>

lemma removal_loop_on_repeated_member:
  "let opt = sample_options [] [];
       w = sample_world [] (\<lambda>_. None) int;
       bs = [marked ''roles/viewer'' ''_1'' [''user:a'', ''user:a''],
             unconditional ''roles/owner'' [''user:a'', ''user:b'']];
       bs1 = [marked ''roles/viewer'' ''_1'' [''user:a'', ''user:a'']]
   in fst (remove_loop (length (collect_bindings opt 0 bs)) (collect_bindings opt 0 bs) bs w)
        = Some [unconditional ''roles/owner'' [''user:b'']]
      \<and> stable_rebuild opt bs = [unconditional ''roles/owner'' [''user:a'', ''user:b'']]
      \<and> fst (remove_loop (length (collect_bindings opt 0 bs1)) (collect_bindings opt 0 bs1) bs1 w) = None
      \<and> stable_rebuild opt bs1 = []"
  by (simp add: Let_def sample_defs rebuild_defs remove_member_at_def logger_def numeral_2_eq_2)

subsection \<open>Titles\<close>

lemma UnixNano_small: "- (2 ^ 63) \<le> t \<Longrightarrow> t < 2 ^ 63 \<Longrightarrow> UnixNano t = t"
  unfolding UnixNano_def
  by (simp add: sint_sbintrunc' signed_take_bit_int_eq_self)

lemma digit_char_inj:
  assumes "d < 10" "e < 10" "digit_char d = digit_char e"
  shows "d = e"
proof -
  have "distinct ''0123456789''" by simp
  moreover have "d < length ''0123456789''" "e < length ''0123456789''" using assms by simp_all
  ultimately show ?thesis
    using assms(3) unfolding digit_char_def by (simp only: nth_eq_iff_index_eq)
qed

lemma digit_char_set: "d < 10 \<Longrightarrow> digit_char d \<in> set ''0123456789''"
  unfolding digit_char_def by (rule nth_mem) simp

lemma digits_nonempty: "digits n \<noteq> []"
  by (subst digits.simps) simp

lemma digits_set: "set (digits n) \<subseteq> set ''0123456789''"
proof (induction n rule: digits.induct)
  case (1 n)
  show ?case
  proof (cases "n < 10")
    case True
    then show ?thesis using digit_char_set [of n] by (subst digits.simps) simp
  next
    case False
    have "n mod 10 < 10" by simp
    with 1 [OF False] False digit_char_set [of "n mod 10"] show ?thesis
      by (subst digits.simps) simp
  qed
qed

lemma digits_length_ge2: "\<not> n < 10 \<Longrightarrow> 2 \<le> length (digits n)"
  using digits_nonempty [of "n div 10"]
  by (subst digits.simps) (simp add: Suc_le_eq)

lemma digits_inj: "digits m = digits n \<Longrightarrow> m = n"
proof (induction m arbitrary: n rule: digits.induct)
  case (1 m)
  show ?case
  proof (cases "m < 10")
    case True
    note m = True
    show ?thesis
    proof (cases "n < 10")
      case True
      with m "1.prems" show ?thesis
        by (simp add: digits.simps [of m] digits.simps [of n] digit_char_inj)
    next
      case False
      from "1.prems" m have "length (digits n) = 1"
        by (simp add: digits.simps [of m] flip: "1.prems")
      with digits_length_ge2 [OF False] show ?thesis by simp
    qed
  next
    case False
    note m = False
    show ?thesis
    proof (cases "n < 10")
      case True
      from "1.prems" True have "length (digits m) = 1"
        by (simp add: digits.simps [of n])
      with digits_length_ge2 [OF m] show ?thesis by simp
    next
      case False
      with m "1.prems" have "digits (m div 10) = digits (n div 10)"
        and "digit_char (m mod 10) = digit_char (n mod 10)"
        by (simp_all add: digits.simps [of m] digits.simps [of n])
      then have "m div 10 = n div 10" "m mod 10 = n mod 10"
        using "1.IH" [OF m] by (simp_all add: digit_char_inj)
      then show ?thesis by (metis div_mult_mod_eq)
    qed
  qed
qed

lemma sprint_d_inj: "sprint_d i = sprint_d j \<Longrightarrow> i = j"
proof -
  assume eq: "sprint_d i = sprint_d j"
  have nm: "CHR ''-'' # xs \<noteq> digits n" for xs n
  proof
    assume "CHR ''-'' # xs = digits n"
    then have "CHR ''-'' \<in> set (digits n)" by (metis list.set_intros(1))
    with digits_set [of n] show False by auto
  qed
  show ?thesis
  proof (cases "i < 0")
    case True
    note i = True
    show ?thesis
    proof (cases "j < 0")
      case True
      with i eq have "nat (- i) = nat (- j)" by (simp add: sprint_d_def digits_inj)
      with i True show ?thesis by simp
    next
      case False
      with i eq nm show ?thesis by (simp add: sprint_d_def)
    qed
  next
    case False
    note i = False
    show ?thesis
    proof (cases "j < 0")
      case True
      with i eq nm [of "digits (nat (- j))" "nat i"] show ?thesis by (simp add: sprint_d_def)
    next
      case False
      with i eq have "nat i = nat j" by (simp add: sprint_d_def digits_inj)
      with i False show ?thesis by simp
    qed
  qed
qed

lemma title_at_eq_iff:
  "title_at c k = title_at c' k' \<longleftrightarrow> UnixNano (c k) = UnixNano (c' k')"
  by (auto simp: title_at_def dest: sprint_d_inj)

lemma createBinding_title_at:
  "createBinding role member ttl w = (b, w') \<Longrightarrow>
     conditionTitle b = title_at (clock w) (Suc (clock_reads w))"
  by (simp add: createBinding_title title_at_def)

lemma grant_loop_titles:
  "grant_loop opt member roles p errs w = (p', errs', w') \<Longrightarrow>
     \<exists>gs ks. grantedRoles p' = grantedRoles p @ gs
       \<and> map gr_BindingID gs = map (title_at (clock w)) ks
       \<and> sorted_wrt (<) ks \<and> (\<forall>k \<in> set ks. clock_reads w \<le> k \<and> k < clock_reads w')
       \<and> clock w' = clock w \<and> clock_reads w \<le> clock_reads w'"
proof (induction roles arbitrary: p errs w)
  case Nil
  then show ?case by simp
next
  case (Cons role roles)
  from Cons.prems show ?case
  proof (cases rule: grant_loop_step)
    case dry
    from Cons.IH [OF dry(2)] show ?thesis by (simp add: logger_fields)
  next
    case (get_failed err w2)
    from getIAMPolicy_world [OF get_failed(2)]
    have "clock w2 = clock w" "clock_reads w2 = clock_reads w" by (simp_all add: logger_fields)
    with Cons.IH [OF get_failed(3)] show ?thesis by (simp add: logger_fields)
  next
    case (set_failed pol w2 b w3 err w4)
    from getIAMPolicy_world [OF set_failed(2)] createBinding_world [OF set_failed(3)]
      setIAMPolicy_Some [OF set_failed(4)]
    have w4: "clock w4 = clock w" "clock_reads w4 = Suc (Suc (Suc (clock_reads w)))"
      by (simp_all add: logger_fields)
    from Cons.IH [OF set_failed(5)] obtain gs ks where ih:
      "grantedRoles p' = grantedRoles p @ gs" "map gr_BindingID gs = map (title_at (clock w)) ks"
      "sorted_wrt (<) ks" "\<forall>k \<in> set ks. Suc (Suc (Suc (clock_reads w))) \<le> k \<and> k < clock_reads w'"
      "clock w' = clock w" "Suc (Suc (Suc (clock_reads w))) \<le> clock_reads w'"
      by (auto simp: logger_fields w4)
    show ?thesis
      by (intro exI [of _ gs] exI [of _ ks]) (use ih in auto)
  next
    case (granted pol w2 b w3 w4)
    from getIAMPolicy_world [OF granted(2)]
    have w2: "clock w2 = clock w" "clock_reads w2 = clock_reads w" by (simp_all add: logger_fields)
    from createBinding_world [OF granted(3)] setIAMPolicy_None [OF granted(4)] w2
    have w4: "clock w4 = clock w" "clock_reads w4 = Suc (Suc (Suc (clock_reads w)))"
      by simp_all
    from createBinding_title_at [OF granted(3)] w2
    have t: "conditionTitle b = title_at (clock w) (Suc (clock_reads w))" by simp
    from Cons.IH [OF granted(5)] obtain gs ks where ih:
      "grantedRoles p' = (grantedRoles p @ [\<lparr>gr_Role = formatRole role, gr_BindingID = conditionTitle b\<rparr>]) @ gs"
      "map gr_BindingID gs = map (title_at (clock w)) ks"
      "sorted_wrt (<) ks" "\<forall>k \<in> set ks. Suc (Suc (Suc (clock_reads w))) \<le> k \<and> k < clock_reads w'"
      "clock w' = clock w" "Suc (Suc (Suc (clock_reads w))) \<le> clock_reads w'"
      by (auto simp: w4)
    show ?thesis
      by (intro exI [of _ "\<lparr>gr_Role = formatRole role, gr_BindingID = conditionTitle b\<rparr> # gs"]
          exI [of _ "Suc (clock_reads w) # ks"]) (use ih t in auto)
  qed
qed

text \<open>
  Claim C7, as the code has it. The title \<open>createBinding\<close> gives a binding is
  the title of its second clock reading: the marker prefix, an underscore and the
  reading in nanoseconds (as an \<open>int64\<close>) in decimal. The IDs that an invocation
  of \<open>Grant\<close> records are these titles, for readings taken during the
  invocation at increasing positions; two titles are equal exactly when the two
  readings are; so the IDs are pairwise distinct when the readings taken during
  the invocation are. The clock is not changed, and later invocations read it at
  later positions.
\<close>

theorem granted_titles_follow_clock:
  assumes run: "Grant p opts w = (r, p', opts', w')"
  shows "(\<exists>ks. map gr_BindingID (new_grants p p') = map (title_at (clock w)) ks
            \<and> sorted_wrt (<) ks \<and> set ks \<subseteq> {clock_reads w ..< clock_reads w'})
    \<and> (inj_on (\<lambda>k. UnixNano (clock w k)) {clock_reads w ..< clock_reads w'} \<longrightarrow>
          distinct (map gr_BindingID (new_grants p p')))
    \<and> clock w' = clock w \<and> clock_reads w \<le> clock_reads w'
    \<and> (\<forall>k k'. title_at (clock w) k = title_at (clock w) k' \<longleftrightarrow> UnixNano (clock w k) = UnixNano (clock w k'))
    \<and> (\<forall>k. title_at (clock w) k = gcpBindingTitlePrefix @ ''_'' @ sprint_d (UnixNano (clock w k)))
    \<and> (\<forall>role member ttl. conditionTitle (fst (createBinding role member ttl w))
          = title_at (clock w) (Suc (clock_reads w)))"
proof -
  have ex: "\<exists>ks. map gr_BindingID (new_grants p p') = map (title_at (clock w)) ks
      \<and> sorted_wrt (<) ks \<and> set ks \<subseteq> {clock_reads w ..< clock_reads w'}
      \<and> clock w' = clock w \<and> clock_reads w \<le> clock_reads w'"
  proof (cases "\<exists>opt. opts = GCP opt \<and> (User opt \<noteq> [] \<or> (\<exists>u. getCurrentUser w = Inr u))")
    case False
    with run have "p' = p \<and> w' = w"
      by (cases opts; cases "getCurrentUser w") (auto simp: Grant_def)
    then show ?thesis by (simp add: new_grants_def)
  next
    case True
    then obtain opt where opts: "opts = GCP opt"
      and user: "User opt = [] \<Longrightarrow> \<exists>u. getCurrentUser w = Inr u"
      by blast
    note run = run [unfolded opts]
    from user obtain opt' w0 where G:
      "Grant p (GCP opt) w = grant_finish (grant_loop opt' (formatMember (User opt')) (Roles opt) p [] w0) opt'"
      and w0: "clock w0 = clock w" "clock_reads w0 = clock_reads w"
      by (rule Grant_resolved)
    obtain p1 e1 w1 where loop:
      "grant_loop opt' (formatMember (User opt')) (Roles opt) p [] w0 = (p1, e1, w1)"
      by (metis prod_cases3)
    from run G loop have "p' = p1" "clock w' = clock w1" "clock_reads w' = clock_reads w1"
      by (auto simp: grant_finish_def logger_fields split: if_splits)
    with grant_loop_titles [OF loop] w0 show ?thesis
      by (auto simp: new_grants_def)
  qed
  then obtain ks where ks: "map gr_BindingID (new_grants p p') = map (title_at (clock w)) ks"
    "sorted_wrt (<) ks" "set ks \<subseteq> {clock_reads w ..< clock_reads w'}"
    by blast
  have "distinct (map gr_BindingID (new_grants p p'))"
    if inj: "inj_on (\<lambda>k. UnixNano (clock w k)) {clock_reads w ..< clock_reads w'}"
  proof -
    from ks(2) have "distinct ks" by (simp add: strict_sorted_iff)
    moreover have "inj_on (title_at (clock w)) (set ks)"
      using inj ks(3) by (auto simp: inj_on_def title_at_eq_iff)
    ultimately show ?thesis by (simp add: ks(1) distinct_map)
  qed
  moreover have "\<forall>k k'. title_at (clock w) k = title_at (clock w) k'
      \<longleftrightarrow> UnixNano (clock w k) = UnixNano (clock w k')"
    by (simp add: title_at_eq_iff)
  moreover have "\<forall>k. title_at (clock w) k = gcpBindingTitlePrefix @ ''_'' @ sprint_d (UnixNano (clock w k))"
    by (simp add: title_at_def)
  moreover have "\<forall>role member ttl. conditionTitle (fst (createBinding role member ttl w))
      = title_at (clock w) (Suc (clock_reads w))"
    using createBinding_title_at [OF prod.collapse [symmetric]] by blast
  ultimately show ?thesis
    using ex by blast
qed

lemma inj_on_UnixNano_sample: "inj_on (\<lambda>k. UnixNano (int k)) {0..<6}"
  by (auto simp: inj_on_def UnixNano_small)

text \<open>Two roles granted under a clock that advances by one nanosecond at every reading.\<close>

theorem granted_titles_follow_clock_witness:
  "let p = NewGCPProvider False;
       w = sample_world [] (\<lambda>_. None) int;
       G = Grant p (GCP (sample_options [''viewer'', ''editor''] ''a'')) w
   in fst G = OK \<and> clock_reads (snd (snd (snd G))) = 6
      \<and> inj_on (\<lambda>k. UnixNano (clock w k)) {clock_reads w ..< clock_reads (snd (snd (snd G)))}
      \<and> map gr_BindingID (new_grants p (fst (snd G))) = [''gta_temporary_access_1'', ''gta_temporary_access_4'']
      \<and> distinct (map gr_BindingID (new_grants p (fst (snd G))))"
proof -
  let ?p = "NewGCPProvider False"
  let ?w = "sample_world [] (\<lambda>_. None) int"
  let ?G = "Grant ?p (GCP (sample_options [''viewer'', ''editor''] ''a'')) ?w"
  have e: "fst ?G = OK" "clock_reads (snd (snd (snd ?G))) = 6"
    "map gr_BindingID (new_grants ?p (fst (snd ?G))) = [''gta_temporary_access_1'', ''gta_temporary_access_4'']"
    by (simp_all add: sample_defs run_defs sprint_d_1 sprint_d_4 new_grants_def)
  have i: "inj_on (\<lambda>k. UnixNano (clock ?w k)) {clock_reads ?w ..< clock_reads (snd (snd (snd ?G)))}"
    using inj_on_UnixNano_sample by (simp add: e(2)) (simp add: sample_world_def)
  from granted_titles_follow_clock [of ?p "GCP (sample_options [''viewer'', ''editor''] ''a'')" ?w
      "fst ?G" "fst (snd ?G)" "fst (snd (snd ?G))" "snd (snd (snd ?G))"] i
  have "distinct (map gr_BindingID (new_grants ?p (fst (snd ?G))))"
    by simp
  with e i show ?thesis by (simp add: Let_def)
qed

text \<open>
  Claim C7 as stated fails under a clock that returns the same instant at every
  reading: two roles are granted in one invocation and both bindings get the same
  title.
\<close>

theorem granted_titles_follow_clock_counterexample:
  "let G = Grant (NewGCPProvider False) (GCP (sample_options [''viewer'', ''editor''] ''a''))
             (sample_world [] (\<lambda>_. None) (\<lambda>_. 0))
   in fst G = OK
      \<and> map gr_Role (grantedRoles (fst (snd G))) = [''roles/viewer'', ''roles/editor'']
      \<and> map gr_BindingID (grantedRoles (fst (snd G))) = [''gta_temporary_access_0'', ''gta_temporary_access_0'']"
  by (simp add: Let_def sample_defs run_defs sprint_d_0)

subsection \<open>What Revoke and Clean send\<close>

lemma getIAMPolicy_Inl:
  "getIAMPolicy pr w = (Inl e, w') \<Longrightarrow> api_fault w (length (api_calls w)) \<noteq> None"
  by (auto simp: getIAMPolicy_def Let_def split: option.splits)

lemma revoke_loop_sent:
  assumes wet: "\<not> dryRun p"
  shows "revoke_loop p opt member gs errs w = (errs', w') \<Longrightarrow>
     \<exists>cs. api_calls w' = api_calls w @ cs \<and> api_fault w' = api_fault w
       \<and> set_policy_calls cs
           = map (\<lambda>bs. (Project opt, \<lparr>Bindings = bs, Version = policyVersion\<rparr>))
               (revoke_sent (api_fault w) (length (api_calls w)) member gs
                  (Bindings (remote w (Project opt))))
       \<and> Bindings (remote w' (Project opt))
           = revoked_bindings (api_fault w) (length (api_calls w)) member gs
               (Bindings (remote w (Project opt)))"
proof (induction gs arbitrary: errs w)
  case Nil
  then show ?case by simp
next
  case (Cons g gs)
  let ?bs = "Bindings (remote w (Project opt))"
  let ?k = "length (api_calls w)"
  from Cons.prems show ?case
  proof (cases rule: revoke_loop_step)
    case dry
    with wet show ?thesis by simp
  next
    case (get_failed err w2)
    from getIAMPolicy_world [OF get_failed(2)]
    have w2: "api_calls w2 = api_calls w @ [GetIamPolicyCall (Project opt)]"
      "api_fault w2 = api_fault w" "remote w2 = remote w"
      by (simp_all add: logger_fields)
    from getIAMPolicy_Inl [OF get_failed(2)] have f: "api_fault w ?k \<noteq> None"
      by (simp add: logger_fields)
    from Cons.IH [OF get_failed(3)] obtain cs where ih:
      "api_calls w' = (api_calls w @ [GetIamPolicyCall (Project opt)]) @ cs"
      "api_fault w' = api_fault w"
      "set_policy_calls cs = map (\<lambda>bs. (Project opt, \<lparr>Bindings = bs, Version = policyVersion\<rparr>))
          (revoke_sent (api_fault w) (Suc ?k) member gs ?bs)"
      "Bindings (remote w' (Project opt)) = revoked_bindings (api_fault w) (Suc ?k) member gs ?bs"
      by (auto simp: logger_fields w2)
    with f show ?thesis
      by (intro exI [of _ "GetIamPolicyCall (Project opt) # cs"]) simp
  next
    case (set_failed pol w2 err w3)
    from getIAMPolicy_world [OF set_failed(2)] getIAMPolicy_Inr [OF set_failed(2)]
    have w2: "api_calls w2 = api_calls w @ [GetIamPolicyCall (Project opt)]"
      "api_fault w2 = api_fault w" "remote w2 = remote w"
      and f: "api_fault w ?k = None"
      and pol: "pol = (remote w (Project opt))\<lparr>Version := policyVersion\<rparr>"
      by (simp_all add: logger_fields)
    let ?sent = "\<lparr>Bindings = revoke_binding g member ?bs, Version = policyVersion\<rparr>"
    have sent: "pol\<lparr>Bindings := revoke_binding g member (Bindings pol)\<rparr> = ?sent"
      by (simp add: pol)
    from setIAMPolicy_Some [OF set_failed(3)] w2
    have w3: "api_calls w3 = api_calls w @ [GetIamPolicyCall (Project opt), SetIamPolicyCall (Project opt) ?sent]"
      "api_fault w3 = api_fault w" "remote w3 = remote w"
      and f2: "api_fault w (Suc ?k) \<noteq> None"
      by (simp_all add: sent)
    from Cons.IH [OF set_failed(4)] obtain cs where ih:
      "api_calls w' = (api_calls w @ [GetIamPolicyCall (Project opt), SetIamPolicyCall (Project opt) ?sent]) @ cs"
      "api_fault w' = api_fault w"
      "set_policy_calls cs = map (\<lambda>bs. (Project opt, \<lparr>Bindings = bs, Version = policyVersion\<rparr>))
          (revoke_sent (api_fault w) (Suc (Suc ?k)) member gs ?bs)"
      "Bindings (remote w' (Project opt)) = revoked_bindings (api_fault w) (Suc (Suc ?k)) member gs ?bs"
      by (auto simp: logger_fields w3)
    with f f2 show ?thesis
      by (intro exI [of _ "GetIamPolicyCall (Project opt) # SetIamPolicyCall (Project opt) ?sent # cs"]) auto
  next
    case (revoked pol w2 w3)
    from getIAMPolicy_world [OF revoked(2)] getIAMPolicy_Inr [OF revoked(2)]
    have w2: "api_calls w2 = api_calls w @ [GetIamPolicyCall (Project opt)]"
      "api_fault w2 = api_fault w" "remote w2 = remote w"
      and f: "api_fault w ?k = None"
      and pol: "pol = (remote w (Project opt))\<lparr>Version := policyVersion\<rparr>"
      by (simp_all add: logger_fields)
    let ?sent = "\<lparr>Bindings = revoke_binding g member ?bs, Version = policyVersion\<rparr>"
    have sent: "pol\<lparr>Bindings := revoke_binding g member (Bindings pol)\<rparr> = ?sent"
      by (simp add: pol)
    from setIAMPolicy_None [OF revoked(3)] w2
    have w3: "api_calls w3 = api_calls w @ [GetIamPolicyCall (Project opt), SetIamPolicyCall (Project opt) ?sent]"
      "api_fault w3 = api_fault w" "remote w3 = (remote w)(Project opt := ?sent)"
      and f2: "api_fault w (Suc ?k) = None"
      by (simp_all add: sent)
    from Cons.IH [OF revoked(4)] obtain cs where ih:
      "api_calls w' = (api_calls w @ [GetIamPolicyCall (Project opt), SetIamPolicyCall (Project opt) ?sent]) @ cs"
      "api_fault w' = api_fault w"
      "set_policy_calls cs = map (\<lambda>bs. (Project opt, \<lparr>Bindings = bs, Version = policyVersion\<rparr>))
          (revoke_sent (api_fault w) (Suc (Suc ?k)) member gs (revoke_binding g member ?bs))"
      "Bindings (remote w' (Project opt))
         = revoked_bindings (api_fault w) (Suc (Suc ?k)) member gs (revoke_binding g member ?bs)"
      by (auto simp: w3)
    with f f2 show ?thesis
      by (intro exI [of _ "GetIamPolicyCall (Project opt) # SetIamPolicyCall (Project opt) ?sent # cs"]) auto
  qed
qed

lemma Revoke_sent:
  assumes wet: "\<not> dryRun p"
  shows "set_policy_calls (new_calls w (snd (Revoke p (GCP opt) w)))
      = map (\<lambda>bs. (Project opt, \<lparr>Bindings = bs, Version = policyVersion\<rparr>))
          (revoke_sent (api_fault w) (length (api_calls w)) (formatMember (User opt)) (grantedRoles p)
             (Bindings (remote w (Project opt))))
    \<and> Bindings (remote (snd (Revoke p (GCP opt) w)) (Project opt))
      = revoked_bindings (api_fault w) (length (api_calls w)) (formatMember (User opt)) (grantedRoles p)
          (Bindings (remote w (Project opt)))"
proof (cases "grantedRoles p = []")
  case True
  then show ?thesis by (simp add: Revoke_def logger_fields)
next
  case False
  obtain errs' w' where loop:
    "revoke_loop p opt (formatMember (User opt)) (grantedRoles p) [] w = (errs', w')"
    by (cases "revoke_loop p opt (formatMember (User opt)) (grantedRoles p) [] w")
  from revoke_loop_sent [OF wet loop] obtain cs where
    "api_calls w' = api_calls w @ cs"
    "set_policy_calls cs = map (\<lambda>bs. (Project opt, \<lparr>Bindings = bs, Version = policyVersion\<rparr>))
       (revoke_sent (api_fault w) (length (api_calls w)) (formatMember (User opt)) (grantedRoles p)
          (Bindings (remote w (Project opt))))"
    "Bindings (remote w' (Project opt))
       = revoked_bindings (api_fault w) (length (api_calls w)) (formatMember (User opt)) (grantedRoles p)
           (Bindings (remote w (Project opt)))"
    by blast
  with False loop show ?thesis
    by (simp add: Revoke_def logger_fields new_calls_append)
qed

lemma Clean_sent:
  assumes wet: "\<not> dryRun p"
    and ok: "api_fault w (length (api_calls w)) = None"
    and tbs: "collect_bindings opt 0 (Bindings (remote w (Project opt))) \<noteq> []"
  shows "case remove_entries (rev (collect_bindings opt 0 (Bindings (remote w (Project opt)))))
              (Bindings (remote w (Project opt))) of
      None \<Rightarrow> fst (CleanTemporaryBindings p (GCP opt) w) = Panic
         \<and> set_policy_calls (new_calls w (snd (CleanTemporaryBindings p (GCP opt) w))) = []
         \<and> remote (snd (CleanTemporaryBindings p (GCP opt) w)) = remote w
    | Some bs' \<Rightarrow>
         set_policy_calls (new_calls w (snd (CleanTemporaryBindings p (GCP opt) w)))
           = [(Project opt, \<lparr>Bindings = bs', Version = policyVersion\<rparr>)]
         \<and> (if api_fault w (Suc (length (api_calls w))) = None
             then fst (CleanTemporaryBindings p (GCP opt) w) = OK
               \<and> Bindings (remote (snd (CleanTemporaryBindings p (GCP opt) w)) (Project opt)) = bs'
             else remote (snd (CleanTemporaryBindings p (GCP opt) w)) = remote w)"
proof -
  let ?k = "length (api_calls w)"
  let ?w0 = "w\<lparr>api_calls := api_calls w @ [GetIamPolicyCall (Project opt)]\<rparr>"
  let ?bs = "Bindings (remote w (Project opt))"
  let ?tbs = "collect_bindings opt 0 ?bs"
  note get = getIAMPolicy_ok [OF ok, of "Project opt"]
  obtain x w3 where loop: "remove_loop (length ?tbs) ?tbs ?bs (report_bindings p ?tbs ?w0) = (x, w3)"
    by (cases "remove_loop (length ?tbs) ?tbs ?bs (report_bindings p ?tbs ?w0)")
  from remove_loop_entries [of "length ?tbs" ?tbs ?bs "report_bindings p ?tbs ?w0"] loop
  have x: "remove_entries (rev ?tbs) ?bs = x" by simp
  from remove_loop_fields [OF loop]
  have w3: "remote w3 = remote w" "api_calls w3 = api_calls w @ [GetIamPolicyCall (Project opt)]"
    "api_fault w3 = api_fault w"
    by (simp_all add: report_bindings_fields)
  show ?thesis
  proof (cases x)
    case None
    with wet tbs loop w3 show ?thesis
      by (simp add: x CleanTemporaryBindings_def get Let_def new_calls_def)
  next
    case (Some bs')
    let ?pol = "\<lparr>Bindings = bs', Version = policyVersion\<rparr>"
    have pol: "(remote w (Project opt))\<lparr>Version := policyVersion, Bindings := bs'\<rparr> = ?pol"
      by simp
    from wet tbs loop Some
    have C: "CleanTemporaryBindings p (GCP opt) w
        = (case setIAMPolicy (Project opt) ?pol w3 of
             (Some err, w4) \<Rightarrow> (Error (UpdateIAMPolicyFailed err), w4)
           | (None, w4) \<Rightarrow> (OK, logger Info (CleanedUp (length ?tbs)) w4))"
      by (simp add: CleanTemporaryBindings_def get Let_def pol)
    show ?thesis
    proof (cases "api_fault w (Suc ?k)")
      case None
      then show ?thesis
        by (simp add: x Some C setIAMPolicy_def Let_def w3 new_calls_def logger_fields)
    next
      case (Some e)
      then show ?thesis
        by (simp add: x \<open>x = Some bs'\<close> C setIAMPolicy_def Let_def w3 new_calls_def)
    qed
  qed
qed

text \<open>
  Claim C2. Outside dry-run mode, the policies \<open>Revoke\<close> sends and the
  bindings it leaves stored are those of \<open>revoke_sent\<close> and
  \<open>revoked_bindings\<close>: for every recorded grant whose fetch succeeds, the
  stored bindings after \<open>revoke_binding\<close>. When the fetch of
  \<open>CleanTemporaryBindings\<close> succeeds and there are matches, its removal loop
  is the chain of \<open>remove_member_at\<close> steps over the entries from the last
  to the first; it sends the bindings the chain ends with, which are the stored
  ones once the write is accepted, and sends nothing when a step panics. In both
  operations the step at a binding does what the claim says: when no other member
  is left the binding is cut out of the policy and the bindings around it stay;
  otherwise the binding stays at its place with its role and condition, and its
  members are the former ones without the removed member, in their order.
\<close>

theorem removal_deletes_or_shrinks:
  assumes wet: "\<not> dryRun p"
  shows
    "(let bs = Bindings (remote w (Project opt)); w' = snd (Revoke p (GCP opt) w)
      in set_policy_calls (new_calls w w')
           = map (\<lambda>bs. (Project opt, \<lparr>Bindings = bs, Version = policyVersion\<rparr>))
               (revoke_sent (api_fault w) (length (api_calls w)) (formatMember (User opt)) (grantedRoles p) bs)
         \<and> Bindings (remote w' (Project opt))
           = revoked_bindings (api_fault w) (length (api_calls w)) (formatMember (User opt)) (grantedRoles p) bs)
     \<and> (let bs = Bindings (remote w (Project opt)); tbs = collect_bindings opt 0 bs;
             C = CleanTemporaryBindings p (GCP opt) w
         in api_fault w (length (api_calls w)) = None \<and> tbs \<noteq> [] \<longrightarrow>
              fst (remove_loop (length tbs) tbs bs w) = remove_entries (rev tbs) bs
              \<and> (case remove_entries (rev tbs) bs of
                    None \<Rightarrow> fst C = Panic \<and> set_policy_calls (new_calls w (snd C)) = []
                      \<and> remote (snd C) = remote w
                  | Some bs' \<Rightarrow>
                      set_policy_calls (new_calls w (snd C))
                        = [(Project opt, \<lparr>Bindings = bs', Version = policyVersion\<rparr>)]
                      \<and> (if api_fault w (Suc (length (api_calls w))) = None
                          then fst C = OK \<and> Bindings (remote (snd C) (Project opt)) = bs'
                          else remote (snd C) = remote w)))
     \<and> (let kept = filter (\<lambda>m. m \<noteq> member) (Members b);
             after = (if kept = [] then pre @ post else pre @ b\<lparr>Members := kept\<rparr> # post)
         in (list_all (\<lambda>x. \<not> is_granted g x) pre \<and> is_granted g b \<longrightarrow>
               revoke_binding g member (pre @ b # post) = after)
            \<and> (tb_Index t = length pre \<and> tb_Member t = member \<longrightarrow>
                 remove_entries (t # ts) (pre @ b # post) = remove_entries ts after)
            \<and> remove_member_at (length pre) member (pre @ b # post) = Some after
            \<and> set kept = set (Members b) - {member}
            \<and> (kept = [] \<longleftrightarrow> set (Members b) \<subseteq> {member}))"
proof -
  have r: "let bs = Bindings (remote w (Project opt)); w' = snd (Revoke p (GCP opt) w)
      in set_policy_calls (new_calls w w')
           = map (\<lambda>bs. (Project opt, \<lparr>Bindings = bs, Version = policyVersion\<rparr>))
               (revoke_sent (api_fault w) (length (api_calls w)) (formatMember (User opt)) (grantedRoles p) bs)
         \<and> Bindings (remote w' (Project opt))
           = revoked_bindings (api_fault w) (length (api_calls w)) (formatMember (User opt)) (grantedRoles p) bs"
    using Revoke_sent [OF wet, of w opt] by (simp add: Let_def)
  have c: "let bs = Bindings (remote w (Project opt)); tbs = collect_bindings opt 0 bs;
             C = CleanTemporaryBindings p (GCP opt) w
         in api_fault w (length (api_calls w)) = None \<and> tbs \<noteq> [] \<longrightarrow>
              fst (remove_loop (length tbs) tbs bs w) = remove_entries (rev tbs) bs
              \<and> (case remove_entries (rev tbs) bs of
                    None \<Rightarrow> fst C = Panic \<and> set_policy_calls (new_calls w (snd C)) = []
                      \<and> remote (snd C) = remote w
                  | Some bs' \<Rightarrow>
                      set_policy_calls (new_calls w (snd C))
                        = [(Project opt, \<lparr>Bindings = bs', Version = policyVersion\<rparr>)]
                      \<and> (if api_fault w (Suc (length (api_calls w))) = None
                          then fst C = OK \<and> Bindings (remote (snd C) (Project opt)) = bs'
                          else remote (snd C) = remote w))"
    using Clean_sent [OF wet, of w opt] by (simp add: Let_def remove_loop_entries)
  have s: "let kept = filter (\<lambda>m. m \<noteq> member) (Members b);
             after = (if kept = [] then pre @ post else pre @ b\<lparr>Members := kept\<rparr> # post)
         in (list_all (\<lambda>x. \<not> is_granted g x) pre \<and> is_granted g b \<longrightarrow>
               revoke_binding g member (pre @ b # post) = after)
            \<and> (tb_Index t = length pre \<and> tb_Member t = member \<longrightarrow>
                 remove_entries (t # ts) (pre @ b # post) = remove_entries ts after)
            \<and> remove_member_at (length pre) member (pre @ b # post) = Some after
            \<and> set kept = set (Members b) - {member}
            \<and> (kept = [] \<longleftrightarrow> set (Members b) \<subseteq> {member})"
  proof -
    have "set (filter (\<lambda>m. m \<noteq> member) (Members b)) = set (Members b) - {member}"
      by auto
    moreover have "filter (\<lambda>m. m \<noteq> member) (Members b) = [] \<longleftrightarrow> set (Members b) \<subseteq> {member}"
      by (auto simp: filter_empty_conv)
    ultimately show ?thesis
      using revoke_binding_first [of g pre b member post] remove_member_at_split [of pre member b post]
      by (simp add: Let_def)
  qed
  from r c s show ?thesis by (rule conjI [OF _ conjI])
qed

text \<open>
  \<open>Revoke\<close> takes \<open>user:a\<close> out of the session's binding, which keeps
  \<open>user:b\<close>; \<open>CleanTemporaryBindings\<close> with the filter \<open>a\<close> does the
  same and deletes the marked binding that held \<open>user:a\<close> alone.
\<close>

theorem removal_deletes_or_shrinks_witness:
  "let bs = [unconditional ''roles/owner'' [''user:a''],
             marked ''roles/viewer'' ''_1'' [''user:a'', ''user:b''],
             marked ''roles/editor'' ''_2'' [''user:a'']];
       w = sample_world bs (\<lambda>_. None) int;
       opt = sample_options [] ''a'';
       R = Revoke sample_session (GCP opt) w;
       C = CleanTemporaryBindings sample_session (GCP opt) w
   in \<not> dryRun sample_session
      \<and> Bindings (remote (snd R) ''p'')
          = [unconditional ''roles/owner'' [''user:a''],
             marked ''roles/viewer'' ''_1'' [''user:b''],
             marked ''roles/editor'' ''_2'' [''user:a'']]
      \<and> set_policy_calls (new_calls w (snd R))
          = [(''p'', \<lparr>Bindings = [unconditional ''roles/owner'' [''user:a''],
                                   marked ''roles/viewer'' ''_1'' [''user:b''],
                                   marked ''roles/editor'' ''_2'' [''user:a'']], Version = 3\<rparr>)]
      \<and> api_fault w (length (api_calls w)) = None \<and> length (collect_bindings opt 0 bs) = 2
      \<and> fst C = OK
      \<and> Bindings (remote (snd C) ''p'')
          = [unconditional ''roles/owner'' [''user:a''], marked ''roles/viewer'' ''_1'' [''user:b'']]
      \<and> set_policy_calls (new_calls w (snd C))
          = [(''p'', \<lparr>Bindings = [unconditional ''roles/owner'' [''user:a''],
                                   marked ''roles/viewer'' ''_1'' [''user:b'']], Version = 3\<rparr>)]"
proof -
  let ?bs = "[unconditional ''roles/owner'' [''user:a''],
             marked ''roles/viewer'' ''_1'' [''user:a'', ''user:b''],
             marked ''roles/editor'' ''_2'' [''user:a'']]"
  let ?w = "sample_world ?bs (\<lambda>_. None) int"
  let ?opt = "sample_options [] ''a''"
  let ?R = "Revoke sample_session (GCP ?opt) ?w"
  let ?C = "CleanTemporaryBindings sample_session (GCP ?opt) ?w"
  have d: "\<not> dryRun sample_session" by (simp add: sample_defs)
  have f: "api_fault ?w (length (api_calls ?w)) = None" "api_fault ?w (Suc (length (api_calls ?w))) = None"
    "Bindings (remote ?w ''p'') = ?bs" "Project ?opt = ''p''"
    by (simp_all add: sample_defs)
  have n: "collect_bindings ?opt 0 ?bs
      = [\<lparr>tb_Role = ''roles/viewer'', tb_Member = ''user:a'', tb_BindingID = ''gta_temporary_access_1'', tb_Index = 1\<rparr>,
         \<lparr>tb_Role = ''roles/editor'', tb_Member = ''user:a'', tb_BindingID = ''gta_temporary_access_2'', tb_Index = 2\<rparr>]"
    by (simp add: sample_defs rebuild_defs)
  have e: "remove_entries (rev (collect_bindings ?opt 0 ?bs)) ?bs
      = Some [unconditional ''roles/owner'' [''user:a''], marked ''roles/viewer'' ''_1'' [''user:b'']]"
    unfolding n by (simp add: sample_defs remove_member_at_def numeral_2_eq_2)
  have v: "revoked_bindings (api_fault ?w) (length (api_calls ?w)) (formatMember (User ?opt))
        (grantedRoles sample_session) ?bs
      = [unconditional ''roles/owner'' [''user:a''],
         marked ''roles/viewer'' ''_1'' [''user:b''],
         marked ''roles/editor'' ''_2'' [''user:a'']]"
    "revoke_sent (api_fault ?w) (length (api_calls ?w)) (formatMember (User ?opt))
        (grantedRoles sample_session) ?bs
      = [[unconditional ''roles/owner'' [''user:a''],
         marked ''roles/viewer'' ''_1'' [''user:b''],
         marked ''roles/editor'' ''_2'' [''user:a'']]]"
    by (simp_all add: sample_defs is_granted_def formatMember_def gcpBindingTitlePrefix_def)
  note T = removal_deletes_or_shrinks [OF d, of ?w ?opt "''user:a''" "unconditional ''roles/owner'' []"
      "[]" "[]" "\<lparr>gr_Role = [], gr_BindingID = []\<rparr>"
      "\<lparr>tb_Role = [], tb_Member = [], tb_BindingID = [], tb_Index = 0\<rparr>" "[]"]
  from T [THEN conjunct1]
  have R: "set_policy_calls (new_calls ?w (snd ?R))
        = [(''p'', \<lparr>Bindings = [unconditional ''roles/owner'' [''user:a''],
                                   marked ''roles/viewer'' ''_1'' [''user:b''],
                                   marked ''roles/editor'' ''_2'' [''user:a'']], Version = 3\<rparr>)]
      \<and> Bindings (remote (snd ?R) ''p'')
        = [unconditional ''roles/owner'' [''user:a''],
           marked ''roles/viewer'' ''_1'' [''user:b''],
           marked ''roles/editor'' ''_2'' [''user:a'']]"
    by (simp add: Let_def f v policyVersion_def)
  from T [THEN conjunct2, THEN conjunct1]
  have C: "set_policy_calls (new_calls ?w (snd ?C))
        = [(''p'', \<lparr>Bindings = [unconditional ''roles/owner'' [''user:a''],
                                   marked ''roles/viewer'' ''_1'' [''user:b'']], Version = 3\<rparr>)]
      \<and> fst ?C = OK
      \<and> Bindings (remote (snd ?C) ''p'')
        = [unconditional ''roles/owner'' [''user:a''], marked ''roles/viewer'' ''_1'' [''user:b'']]"
    apply (simp only: Let_def f n)
    apply (simp add: marked_def unconditional_def remove_member_at_def numeral_2_eq_2 policyVersion_def)
    done
  from d R C f(1) show ?thesis
    by (simp only: Let_def n) simp
qed

end
